theory Spec2Isabelle
  imports Complex_Main
begin

section \<open>Data model of the annotation store (stores/annotation.js)\<close>

text \<open>
  The store is a Pinia setup store: a bundle of refs mutated in place by its functions.
  Each function is modelled as a function from the store record to the updated record.
  JavaScript numbers that are identifiers or indices are integers; coordinates are reals.
  A field that may be absent (\<^verbatim>\<open>undefined\<close>/\<^verbatim>\<open>null\<close>) is an option.
\<close>

datatype js_error = SyntaxError | TypeError | RequestFailed

record annotation =
  ann_id :: "int option"
  category_id :: int
  x_center :: real
  y_center :: real
  width :: real
  height :: real

record category =
  cat_id :: int
  cat_name :: string

record image =
  image_id :: int
  image_annotations :: "annotation list option"

record store =
  currentImage :: "image option"
  annotations :: "annotation list"
  selectedCategory :: "category option"
  history :: "annotation list list"
  historyIndex :: int
  isLoading :: bool
  imageQueue :: "image list"
  processedHistory :: "image list"
  historyPosition :: int
  isInHistory :: bool

text \<open>
  The partial object passed to \<^verbatim>\<open>updateAnnotation\<close>: a field that is present overrides
  the annotation's field in the spread \<^verbatim>\<open>{ ...old, ...updates }\<close>.
\<close>

record updates =
  upd_category_id :: "int option"
  upd_x_center :: "real option"
  upd_y_center :: "real option"
  upd_width :: "real option"
  upd_height :: "real option"

subsection \<open>JavaScript array primitives\<close>

text \<open>\<^verbatim>\<open>xs[i]\<close>: \<^verbatim>\<open>undefined\<close> outside \<open>0 \<le> i < length\<close>.\<close>

definition js_at :: "'a list \<Rightarrow> int \<Rightarrow> 'a option" where
  "js_at xs i = (if 0 \<le> i \<and> i < int (length xs) then Some (xs ! nat i) else None)"

text \<open>\<^verbatim>\<open>xs.slice(0, e)\<close>: a negative end counts from the end of the array.\<close>

definition js_slice0 :: "'a list \<Rightarrow> int \<Rightarrow> 'a list" where
  "js_slice0 xs e =
     (let n = int (length xs);
          k = (if e < 0 then max (n + e) 0 else min e n)
      in take (nat k) xs)"

text \<open>\<^verbatim>\<open>xs.findIndex(p)\<close>: the first index whose element satisfies \<open>p\<close>; \<open>None\<close> stands for -1.\<close>

fun findIndex :: "('a \<Rightarrow> bool) \<Rightarrow> 'a list \<Rightarrow> nat option" where
  "findIndex p [] = None"
| "findIndex p (a # as) =
     (if p a then Some 0 else (case findIndex p as of None \<Rightarrow> None | Some i \<Rightarrow> Some (Suc i)))"

text \<open>\<^verbatim>\<open>xs.splice(i, 1)\<close> for an index inside the array.\<close>

definition splice1 :: "nat \<Rightarrow> 'a list \<Rightarrow> 'a list" where
  "splice1 i xs = take i xs @ drop (Suc i) xs"

text \<open>
  \<^verbatim>\<open>JSON.parse(JSON.stringify(v))\<close> on an array of annotations builds a structurally equal,
  unshared copy. HOL values are immutable, so the copy is the value itself.
\<close>

definition json_clone :: "annotation list \<Rightarrow> annotation list" where
  "json_clone v = v"

text \<open>\<^verbatim>\<open>v || []\<close> on an array that may be missing (an empty array is truthy).\<close>

definition or_empty :: "annotation list option \<Rightarrow> annotation list" where
  "or_empty v = (case v of None \<Rightarrow> [] | Some as \<Rightarrow> as)"

subsection \<open>Undo history\<close>

definition canUndo :: "store \<Rightarrow> bool" where
  "canUndo s = (historyIndex s > 0)"

definition canRedo :: "store \<Rightarrow> bool" where
  "canRedo s = (historyIndex s < int (length (history s)) - 1)"

definition saveHistory :: "store \<Rightarrow> store" where
  "saveHistory s =
     (let h1 = (if historyIndex s < int (length (history s)) - 1
                then js_slice0 (history s) (historyIndex s + 1)
                else history s);
          h2 = h1 @ [json_clone (annotations s)];
          i2 = int (length h2) - 1
      in if length h2 > 50
         then s\<lparr>history := tl h2, historyIndex := i2 - 1\<rparr>
         else s\<lparr>history := h2, historyIndex := i2\<rparr>)"

text \<open>
  \<^verbatim>\<open>undo\<close>/\<^verbatim>\<open>redo\<close> read \<^verbatim>\<open>history[historyIndex]\<close>; were the index outside the array, the
  read would give \<^verbatim>\<open>undefined\<close> and \<^verbatim>\<open>JSON.parse(undefined)\<close> throws a SyntaxError.
\<close>

definition undo :: "store \<Rightarrow> js_error + store" where
  "undo s =
     (if canUndo s then
        (let i = historyIndex s - 1 in
         case js_at (history s) i of
           None \<Rightarrow> Inl SyntaxError
         | Some snap \<Rightarrow> Inr (s\<lparr>historyIndex := i, annotations := json_clone snap\<rparr>))
      else Inr s)"

definition redo :: "store \<Rightarrow> js_error + store" where
  "redo s =
     (if canRedo s then
        (let i = historyIndex s + 1 in
         case js_at (history s) i of
           None \<Rightarrow> Inl SyntaxError
         | Some snap \<Rightarrow> Inr (s\<lparr>historyIndex := i, annotations := json_clone snap\<rparr>))
      else Inr s)"

subsection \<open>Mutations of the annotation set\<close>

text \<open>
  \<^verbatim>\<open>addAnnotation\<close>: the new id is \<^verbatim>\<open>Date.now()\<close> (the parameter \<open>now\<close>); the category is
  \<^verbatim>\<open>selectedCategory.value?.id || annotation.category_id\<close>, where an id of 0 is falsy.
\<close>

definition addAnnotation :: "int \<Rightarrow> annotation \<Rightarrow> store \<Rightarrow> annotation \<times> store" where
  "addAnnotation now a s =
     (let newAnnotation = a\<lparr>ann_id := Some now,
            category_id := (case selectedCategory s of
                              None \<Rightarrow> category_id a
                            | Some c \<Rightarrow> if cat_id c = 0 then category_id a else cat_id c)\<rparr>
      in (newAnnotation, saveHistory (s\<lparr>annotations := annotations s @ [newAnnotation]\<rparr>)))"

definition apply_updates :: "annotation \<Rightarrow> updates \<Rightarrow> annotation" where
  "apply_updates a u =
     a\<lparr>category_id := (case upd_category_id u of None \<Rightarrow> category_id a | Some v \<Rightarrow> v),
       x_center := (case upd_x_center u of None \<Rightarrow> x_center a | Some v \<Rightarrow> v),
       y_center := (case upd_y_center u of None \<Rightarrow> y_center a | Some v \<Rightarrow> v),
       width := (case upd_width u of None \<Rightarrow> width a | Some v \<Rightarrow> v),
       height := (case upd_height u of None \<Rightarrow> height a | Some v \<Rightarrow> v)\<rparr>"

text \<open>
  The id argument is compared with \<^verbatim>\<open>===\<close>; an absent id is \<^verbatim>\<open>undefined\<close> on both sides,
  so the comparison is equality of options.
\<close>

definition updateAnnotation :: "int option \<Rightarrow> updates \<Rightarrow> store \<Rightarrow> store" where
  "updateAnnotation i u s =
     (case findIndex (\<lambda>a. ann_id a = i) (annotations s) of
        None \<Rightarrow> s
      | Some index \<Rightarrow>
          saveHistory
            (s\<lparr>annotations := (annotations s)[index := apply_updates (annotations s ! index) u]\<rparr>))"

definition removeAnnotation :: "int option \<Rightarrow> store \<Rightarrow> store" where
  "removeAnnotation i s =
     (case findIndex (\<lambda>a. ann_id a = i) (annotations s) of
        None \<Rightarrow> s
      | Some index \<Rightarrow> saveHistory (s\<lparr>annotations := splice1 index (annotations s)\<rparr>))"

subsection \<open>Loading an image into the store\<close>

definition getNextFromQueue :: "store \<Rightarrow> image option \<times> store" where
  "getNextFromQueue s =
     (case imageQueue s of
        [] \<Rightarrow> (None, s)
      | nextImage # rest \<Rightarrow>
          (Some nextImage,
           saveHistory (s\<lparr>imageQueue := rest,
                           currentImage := Some nextImage,
                           annotations := or_empty (image_annotations nextImage)\<rparr>)))"

text \<open>
  \<^verbatim>\<open>initializePrefetch\<close>: \<open>batch\<close> is what \<^verbatim>\<open>fetchImageBatch\<close> returned (it catches its own
  request failure and returns the empty array). The progress flags and the blob cache it
  maintains are not part of the record: no function below reads them.
\<close>

definition initializePrefetch :: "image list \<Rightarrow> store \<Rightarrow> image option \<times> store" where
  "initializePrefetch batch s =
     (if length batch = 0 then (None, s)
      else getNextFromQueue (s\<lparr>imageQueue := batch\<rparr>))"

text \<open>
  \<^verbatim>\<open>fetchNextImage\<close>: \<open>direct\<close> is the outcome of \<^verbatim>\<open>GET /images/next/{datasetId}\<close>, a failed
  request or \<^verbatim>\<open>response.data\<close> (which may be null). The call of \<^verbatim>\<open>backgroundPrefetch\<close> is
  fire-and-forget; it only writes the prefetch flags and later appends to the queue, and
  is left out. The \<^verbatim>\<open>finally\<close> block clears \<^verbatim>\<open>isLoading\<close> on every path.
\<close>

definition fetchNextImage ::
  "image list \<Rightarrow> (js_error + image option) \<Rightarrow> store \<Rightarrow> (js_error + image option) \<times> store" where
  "fetchNextImage batch direct s0 =
     (let s = s0\<lparr>isLoading := True\<rparr> in
      if length (imageQueue s) = 0 \<and> currentImage s = None then
        (let (result, s1) = initializePrefetch batch s
         in (Inr result, s1\<lparr>isLoading := False\<rparr>))
      else
        (let (nextImage, s1) = getNextFromQueue s in
         case nextImage of
           Some _ \<Rightarrow> (Inr (currentImage s1), s1\<lparr>isLoading := False\<rparr>)
         | None \<Rightarrow>
             (case direct of
                Inl e \<Rightarrow> (Inl e, s1\<lparr>isLoading := False\<rparr>)
              | Inr (Some d) \<Rightarrow>
                  (let s2 = saveHistory (s1\<lparr>currentImage := Some d,
                                            annotations := or_empty (image_annotations d)\<rparr>)
                   in (Inr (currentImage s2), s2\<lparr>isLoading := False\<rparr>))
              | Inr None \<Rightarrow>
                  (let s2 = s1\<lparr>currentImage := None, annotations := []\<rparr>
                   in (Inr (currentImage s2), s2\<lparr>isLoading := False\<rparr>)))))"

text \<open>
  \<^verbatim>\<open>GET /images/{imageId}\<close> is the parameter \<open>get\<close>: a failed request, or \<^verbatim>\<open>response.data\<close>.
  With null data the assignment to \<^verbatim>\<open>currentImage\<close> happens and the following read of
  \<^verbatim>\<open>response.data.annotations\<close> throws a TypeError.
\<close>

definition fetchImage ::
  "(int \<Rightarrow> js_error + image option) \<Rightarrow> int \<Rightarrow> store \<Rightarrow> (js_error + image option) \<times> store" where
  "fetchImage get imageId s0 =
     (let s = s0\<lparr>isLoading := True\<rparr> in
      case get imageId of
        Inl e \<Rightarrow> (Inl e, s\<lparr>isLoading := False\<rparr>)
      | Inr None \<Rightarrow> (Inl TypeError, s\<lparr>currentImage := None, isLoading := False\<rparr>)
      | Inr (Some d) \<Rightarrow>
          (let s1 = saveHistory (s\<lparr>currentImage := Some d,
                                    annotations := or_empty (image_annotations d)\<rparr>)
           in (Inr (currentImage s1), s1\<lparr>isLoading := False\<rparr>)))"

subsection \<open>Processed-image history and navigation\<close>

definition canGoPrevious :: "store \<Rightarrow> bool" where
  "canGoPrevious s = (length (processedHistory s) > 0)"

definition canGoNext :: "store \<Rightarrow> bool" where
  "canGoNext s = (isInHistory s \<and> historyPosition s < int (length (processedHistory s)) - 1)"

definition recordToProcessedHistory :: "image \<Rightarrow> annotation list \<Rightarrow> store \<Rightarrow> store" where
  "recordToProcessedHistory img imageAnnotations s =
     (let p1 = (if isInHistory s \<and> historyPosition s < int (length (processedHistory s)) - 1
                then js_slice0 (processedHistory s) (historyPosition s + 1)
                else processedHistory s);
          p2 = p1 @ [img\<lparr>image_annotations := Some (json_clone imageAnnotations)\<rparr>];
          pos = int (length p2) - 1
      in if length p2 > 50
         then s\<lparr>processedHistory := tl p2, historyPosition := pos - 1, isInHistory := False\<rparr>
         else s\<lparr>processedHistory := p2, historyPosition := pos, isInHistory := False\<rparr>)"

text \<open>
  The reload shared by \<^verbatim>\<open>goToPreviousImage\<close> and \<^verbatim>\<open>goToNextImage\<close>: the \<^verbatim>\<open>try\<close>/\<^verbatim>\<open>finally\<close>
  block around \<^verbatim>\<open>api.get(`/images/${id}`)\<close>, which empties the undo history before it
  takes the first snapshot. The first component is the exception, if one is thrown.
\<close>

definition reload :: "(int \<Rightarrow> js_error + image option) \<Rightarrow> int \<Rightarrow> store \<Rightarrow> js_error option \<times> store" where
  "reload get imageId s0 =
     (let s = s0\<lparr>isLoading := True\<rparr> in
      case get imageId of
        Inl e \<Rightarrow> (Some e, s\<lparr>isLoading := False\<rparr>)
      | Inr None \<Rightarrow> (Some TypeError, s\<lparr>currentImage := None, isLoading := False\<rparr>)
      | Inr (Some d) \<Rightarrow>
          (let s1 = saveHistory (s\<lparr>currentImage := Some d,
                                    annotations := or_empty (image_annotations d),
                                    history := [],
                                    historyIndex := - 1\<rparr>)
           in (None, s1\<lparr>isLoading := False\<rparr>)))"

definition goToPreviousImage ::
  "(int \<Rightarrow> js_error + image option) \<Rightarrow> store \<Rightarrow> (js_error + image option) \<times> store" where
  "goToPreviousImage get s =
     (if \<not> canGoPrevious s then (Inr None, s)
      else
        (let s1 = (case currentImage s of
                     Some cur \<Rightarrow>
                       if \<not> isInHistory s then
                         (let lastInHistory =
                                js_at (processedHistory s) (int (length (processedHistory s)) - 1)
                          in if (case lastInHistory of
                                   None \<Rightarrow> True
                                 | Some l \<Rightarrow> image_id l \<noteq> image_id cur)
                             then
                               (let p = processedHistory s
                                        @ [cur\<lparr>image_annotations := Some (json_clone (annotations s))\<rparr>]
                                in s\<lparr>processedHistory := p, historyPosition := int (length p) - 1\<rparr>)
                             else s)
                       else s
                   | None \<Rightarrow> s);
             s2 = s1\<lparr>isInHistory := True, historyPosition := historyPosition s1 - 1\<rparr>
         in case js_at (processedHistory s2) (historyPosition s2) of
              None \<Rightarrow> (Inr (currentImage s2), s2)
            | Some prevImage \<Rightarrow>
                (case reload get (image_id prevImage) s2 of
                   (Some e, s3) \<Rightarrow> (Inl e, s3)
                 | (None, s3) \<Rightarrow> (Inr (currentImage s3), s3))))"

definition goToNextImage ::
  "(int \<Rightarrow> js_error + image option) \<Rightarrow> store \<Rightarrow> (js_error + image option) \<times> store" where
  "goToNextImage get s =
     (if \<not> canGoNext s then (Inr None, s)
      else
        (let s1 = s\<lparr>historyPosition := historyPosition s + 1\<rparr>;
             exitAtHead = (\<lambda>t. if historyPosition t = int (length (processedHistory t)) - 1
                                then t\<lparr>isInHistory := False\<rparr> else t)
         in case js_at (processedHistory s1) (historyPosition s1) of
              None \<Rightarrow> (let s3 = exitAtHead s1 in (Inr (currentImage s3), s3))
            | Some nextImage \<Rightarrow>
                (case reload get (image_id nextImage) s1 of
                   (Some e, s2) \<Rightarrow> (Inl e, s2)
                 | (None, s2) \<Rightarrow> (let s3 = exitAtHead s2 in (Inr (currentImage s3), s3)))))"

definition exitHistoryMode :: "store \<Rightarrow> store" where
  "exitHistoryMode s =
     s\<lparr>isInHistory := False, historyPosition := int (length (processedHistory s)) - 1\<rparr>"

subsection \<open>Saving\<close>

text \<open>
  \<^verbatim>\<open>saveAnnotations\<close>: \<open>post\<close> is the save request, given the image id, the body's
  annotations and the skip flag; it fails (the awaited promise rejects) or returns the
  response. The payload drops the ids. The result is the number of annotations sent,
  or nothing when there is no current image.
\<close>

definition saveAnnotations ::
  "bool \<Rightarrow> (int \<Rightarrow> annotation list \<Rightarrow> bool \<Rightarrow> js_error + 'r) \<Rightarrow> store
     \<Rightarrow> (js_error + nat option) \<times> store" where
  "saveAnnotations skip post s =
     (case currentImage s of
        None \<Rightarrow> (Inr None, s)
      | Some cur \<Rightarrow>
          (let annotationsData = map (\<lambda>a. a\<lparr>ann_id := None\<rparr>) (annotations s) in
           case post (image_id cur) annotationsData skip of
             Inl e \<Rightarrow> (Inl e, s)
           | Inr response \<Rightarrow>
               (Inr (Some (length annotationsData)),
                if \<not> isInHistory s then recordToProcessedHistory cur annotationsData s else s)))"

definition reset :: "store \<Rightarrow> store" where
  "reset s =
     s\<lparr>currentImage := None, annotations := [], history := [], historyIndex := - 1,
       imageQueue := [], processedHistory := [], historyPosition := - 1, isInHistory := False\<rparr>"

section \<open>The canvas component (components/AnnotationCanvas.vue)\<close>

text \<open>
  JavaScript numbers are IEEE 754 doubles. A double is a real number, and an arithmetic
  operation returns the double nearest to the exact result, ties going to the even
  significand. \<open>fl64\<close> is that rounding for a significand of 53 bits; the exponent is not
  bounded, so there is no overflow to infinity and no subnormal range, and NaN and the
  infinities are not values of the model.
\<close>

definition rne :: "real \<Rightarrow> int" where
  "rne x =
     (let f = \<lfloor>x\<rfloor>; r = x - of_int f
      in if r < 1 / 2 then f else if 1 / 2 < r then f + 1 else if even f then f else f + 1)"

definition fl64 :: "real \<Rightarrow> real" where
  "fl64 x =
     (if x = 0 then 0
      else (let e = \<lfloor>log 2 \<bar>x\<bar>\<rfloor> - 52
            in of_int (rne (x / 2 powr of_int e)) * 2 powr of_int e))"

text \<open>The operators \<^verbatim>\<open>+\<close>, \<^verbatim>\<open>-\<close> and \<^verbatim>\<open>/\<close> on doubles.\<close>

definition fadd :: "real \<Rightarrow> real \<Rightarrow> real" where
  "fadd a b = fl64 (a + b)"

definition fsub :: "real \<Rightarrow> real \<Rightarrow> real" where
  "fsub a b = fl64 (a - b)"

definition fdiv :: "real \<Rightarrow> real \<Rightarrow> real" where
  "fdiv a b = fl64 (a / b)"

text \<open>
  The component's refs and the props its pointer handlers read. \<open>image\<close> holds the width
  and height of the loaded image, if one has loaded; \<open>ctx\<close> tells whether the 2d context
  has been obtained. The props are owned by the parent: the record holds them as they
  are when a handler starts.
\<close>

record box =
  box_x :: real
  box_y :: real
  box_w :: real
  box_h :: real

datatype handle_type = TL | T | TR | R | BR | B | BL | L

record canvas =
  ctx :: bool
  scale :: real
  offsetX :: real
  offsetY :: real
  isDrawing :: bool
  isDragging :: bool
  isPanning :: bool
  currentBox :: "box option"
  selectedAnnotation :: "annotation option"
  dragHandle :: "handle_type option"
  dragBox :: "box option"
  image :: "(real \<times> real) option"
  props_annotations :: "annotation list"
  props_selectedCategory :: "category option"

text \<open>What the component emits to its parent.\<close>

datatype event =
    Add annotation
  | Update "int option" updates
  | Delete "int option"
  | ZoomChange real

text \<open>
  \<^verbatim>\<open>draw()\<close> paints the canvas and changes no ref; what matters to its callers is whether
  it returns. It returns at once without a context. \<^verbatim>\<open>drawAnnotation\<close> reads
  \<^verbatim>\<open>image.value.width\<close> unguarded and throws a TypeError when no image has loaded;
  \<^verbatim>\<open>drawAnnotationWithBox\<close>, used for the selected annotation during a resize, does not
  read the image. With no selection \<^verbatim>\<open>selectedAnnotation.value?.id\<close> is undefined, which
  \<^verbatim>\<open>===\<close> an absent id.
\<close>

definition drawAnnotation :: "canvas \<Rightarrow> annotation \<Rightarrow> js_error option" where
  "drawAnnotation c ann = (case image c of None \<Rightarrow> Some TypeError | Some _ \<Rightarrow> None)"

fun draw_each :: "canvas \<Rightarrow> annotation list \<Rightarrow> js_error option" where
  "draw_each c [] = None"
| "draw_each c (ann # rest) =
     (let isSelected =
            (ann_id ann = (case selectedAnnotation c of None \<Rightarrow> None | Some sel \<Rightarrow> ann_id sel))
      in case (if isSelected \<and> isDragging c \<and> dragBox c \<noteq> None then None
               else drawAnnotation c ann) of
           Some e \<Rightarrow> Some e
         | None \<Rightarrow> draw_each c rest)"

definition draw :: "canvas \<Rightarrow> js_error option" where
  "draw c = (if \<not> ctx c then None else draw_each c (props_annotations c))"

text \<open>
  \<open>screenToImage\<close>, \<open>imageToScreen\<close> and \<open>handleWheel\<close> are given in exact arithmetic: what
  is stated of them holds of the doubles up to rounding.
\<close>

definition screenToImage :: "canvas \<Rightarrow> real \<Rightarrow> real \<Rightarrow> real \<times> real" where
  "screenToImage c screenX screenY =
     ((screenX - offsetX c) / scale c, (screenY - offsetY c) / scale c)"

text \<open>
  The image-to-screen map, as \<^verbatim>\<open>drawBox\<close> and \<^verbatim>\<open>getClickedHandle\<close> compute it:
  \<^verbatim>\<open>x * scale.value + offsetX.value\<close>.
\<close>

definition imageToScreen :: "canvas \<Rightarrow> real \<Rightarrow> real \<Rightarrow> real \<times> real" where
  "imageToScreen c imgX imgY = (imgX * scale c + offsetX c, imgY * scale c + offsetY c)"

text \<open>
  \<^verbatim>\<open>handleWheel\<close>: \<open>mouseX\<close>, \<open>mouseY\<close> are the pointer position relative to the canvas,
  \<open>deltaY\<close> the wheel delta. The result is what the handler has written and emitted
  when it reaches its closing redraw.
\<close>

definition handleWheel :: "real \<Rightarrow> real \<Rightarrow> real \<Rightarrow> canvas \<Rightarrow> event list \<times> canvas" where
  "handleWheel mouseX mouseY deltaY c =
     (let zoomFactor = (if deltaY > 0 then 9 / 10 else 11 / 10);
          newScale = min (max (scale c * zoomFactor) (1 / 10)) 10;
          imgPoint = screenToImage c mouseX mouseY;
          c1 = c\<lparr>scale := newScale,
                 offsetX := mouseX - fst imgPoint * newScale,
                 offsetY := mouseY - snd imgPoint * newScale\<rparr>
      in ([ZoomChange (scale c1)], c1))"

definition updateDragBox :: "handle_type \<Rightarrow> real \<times> real \<Rightarrow> canvas \<Rightarrow> canvas" where
  "updateDragBox handleType imgPoint c =
     (case dragBox c of
        None \<Rightarrow> c
      | Some d \<Rightarrow>
          (let x1 = box_x d; y1 = box_y d;
               x2 = fadd (box_x d) (box_w d); y2 = fadd (box_y d) (box_h d);
               (x1, y1, x2, y2) =
                 (case handleType of
                    TL \<Rightarrow> (fst imgPoint, snd imgPoint, x2, y2)
                  | T \<Rightarrow> (x1, snd imgPoint, x2, y2)
                  | TR \<Rightarrow> (x1, snd imgPoint, fst imgPoint, y2)
                  | R \<Rightarrow> (x1, y1, fst imgPoint, y2)
                  | BR \<Rightarrow> (x1, y1, fst imgPoint, snd imgPoint)
                  | B \<Rightarrow> (x1, y1, x2, snd imgPoint)
                  | BL \<Rightarrow> (fst imgPoint, y1, x2, snd imgPoint)
                  | L \<Rightarrow> (fst imgPoint, y1, x2, y2));
               x2 = (if fsub x2 x1 < 10 then fadd x1 10 else x2);
               y2 = (if fsub y2 y1 < 10 then fadd y1 10 else y2)
           in c\<lparr>dragBox := Some \<lparr>box_x = x1, box_y = y1,
                                  box_w = fsub x2 x1, box_h = fsub y2 y1\<rparr>\<rparr>))"

text \<open>
  The end of the drawing branch of \<^verbatim>\<open>handleMouseUp\<close>: the redraw, after the refs have been
  written and the events emitted. An exception of the redraw leaves the handler.
\<close>

definition redraw :: "event list \<Rightarrow> canvas \<Rightarrow> js_error + (event list \<times> canvas)" where
  "redraw emitted c = (case draw c of Some e \<Rightarrow> Inl e | None \<Rightarrow> Inr (emitted, c))"

text \<open>
  \<^verbatim>\<open>handleMouseUp\<close> (also bound to \<^verbatim>\<open>mouseleave\<close>). The result is the list of emitted events
  and the new component state, or the exception thrown. Reading
  \<^verbatim>\<open>props.selectedCategory.id\<close> with no category selected throws a TypeError, after
  \<^verbatim>\<open>isDrawing\<close> has been cleared. The panning and the resize branch return without a
  redraw. The parent answers an emitted add by appending to the array behind the
  annotations prop before the redraw runs; that redraw runs with an image loaded, where
  it returns whatever the annotations are (\<open>draw_with_image\<close> below). The image
  dimensions are those of a decoded image, hence positive.
\<close>

definition handleMouseUp :: "canvas \<Rightarrow> js_error + (event list \<times> canvas)" where
  "handleMouseUp c =
     (if isPanning c then Inr ([], c\<lparr>isPanning := False\<rparr>)
      else if isDragging c then
        (let c1 = c\<lparr>isDragging := False, dragHandle := None\<rparr>;
             emitted =
               (case (selectedAnnotation c1, dragBox c1, image c1) of
                  (Some sel, Some b, Some (imgW, imgH)) \<Rightarrow>
                    [Update (ann_id sel)
                       \<lparr>upd_category_id = None,
                        upd_x_center = Some (fdiv (fadd (box_x b) (fdiv (box_w b) 2)) imgW),
                        upd_y_center = Some (fdiv (fadd (box_y b) (fdiv (box_h b) 2)) imgH),
                        upd_width = Some (fdiv (box_w b) imgW),
                        upd_height = Some (fdiv (box_h b) imgH)\<rparr>]
                | _ \<Rightarrow> [])
         in Inr (emitted, c1\<lparr>dragBox := None\<rparr>))
      else
        (case currentBox c of
           None \<Rightarrow> Inr ([], c)
         | Some cb \<Rightarrow>
             if \<not> isDrawing c then Inr ([], c)
             else
               (let c1 = c\<lparr>isDrawing := False\<rparr>;
                    x = (if box_w cb < 0 then fadd (box_x cb) (box_w cb) else box_x cb);
                    w = (if box_w cb < 0 then - box_w cb else box_w cb);
                    y = (if box_h cb < 0 then fadd (box_y cb) (box_h cb) else box_y cb);
                    h = (if box_h cb < 0 then - box_h cb else box_h cb)
                in if w > 5 \<and> h > 5 then
                     (case image c1 of
                        None \<Rightarrow> redraw [] (c1\<lparr>currentBox := None\<rparr>)
                      | Some (imgW, imgH) \<Rightarrow>
                          (case props_selectedCategory c1 of
                             None \<Rightarrow> Inl TypeError
                           | Some cat \<Rightarrow>
                               redraw
                                 [Add \<lparr>ann_id = None,
                                       category_id = cat_id cat,
                                       x_center = fdiv (fadd x (fdiv w 2)) imgW,
                                       y_center = fdiv (fadd y (fdiv h 2)) imgH,
                                       width = fdiv w imgW,
                                       height = fdiv h imgH\<rparr>]
                                 (c1\<lparr>currentBox := None\<rparr>)))
                   else redraw [] (c1\<lparr>currentBox := None\<rparr>))))"

section \<open>Sequences of store operations\<close>

text \<open>
  The three mutating operations as data, to speak of "n mutations" and of repeated
  \<^verbatim>\<open>undo()\<close>/\<^verbatim>\<open>redo()\<close> calls. A thrown exception ends the sequence.
\<close>

datatype mutation =
    AddOp int annotation
  | UpdateOp "int option" updates
  | RemoveOp "int option"

fun mutate :: "mutation \<Rightarrow> store \<Rightarrow> store" where
  "mutate (AddOp now a) s = snd (addAnnotation now a s)"
| "mutate (UpdateOp i u) s = updateAnnotation i u s"
| "mutate (RemoveOp i) s = removeAnnotation i s"

fun mutate_all :: "mutation list \<Rightarrow> store \<Rightarrow> store" where
  "mutate_all [] s = s"
| "mutate_all (m # ms) s = mutate_all ms (mutate m s)"

text \<open>Whether the operation finds its target (adding always does).\<close>

fun takes_effect :: "mutation \<Rightarrow> store \<Rightarrow> bool" where
  "takes_effect (AddOp now a) s = True"
| "takes_effect (UpdateOp i u) s = (findIndex (\<lambda>a. ann_id a = i) (annotations s) \<noteq> None)"
| "takes_effect (RemoveOp i) s = (findIndex (\<lambda>a. ann_id a = i) (annotations s) \<noteq> None)"

fun repeat_undo :: "nat \<Rightarrow> store \<Rightarrow> js_error + store" where
  "repeat_undo 0 s = Inr s"
| "repeat_undo (Suc n) s = (case undo s of Inl e \<Rightarrow> Inl e | Inr s' \<Rightarrow> repeat_undo n s')"

fun repeat_redo :: "nat \<Rightarrow> store \<Rightarrow> js_error + store" where
  "repeat_redo 0 s = Inr s"
| "repeat_redo (Suc n) s = (case redo s of Inl e \<Rightarrow> Inl e | Inr s' \<Rightarrow> repeat_redo n s')"

text \<open>The history index points at the last snapshot, which is the live annotation set.\<close>

definition at_tail :: "store \<Rightarrow> bool" where
  "at_tail s =
     (history s \<noteq> [] \<and> historyIndex s = int (length (history s)) - 1
      \<and> last (history s) = annotations s)"

text \<open>
  The consistency of the undo history: with a non-empty history the index is inside it
  and the snapshot there is the live annotation set.
\<close>

definition history_consistent :: "store \<Rightarrow> bool" where
  "history_consistent s =
     (history s = [] \<or> js_at (history s) (historyIndex s) = Some (annotations s))"

section \<open>Concrete states\<close>

text \<open>The store as \<^verbatim>\<open>defineStore\<close> creates it.\<close>

definition initial_store :: store where
  "initial_store =
     \<lparr>currentImage = None, annotations = [], selectedCategory = None, history = [],
      historyIndex = - 1, isLoading = False, imageQueue = [], processedHistory = [],
      historyPosition = - 1, isInHistory = False\<rparr>"

definition car :: category where
  "car = \<lparr>cat_id = 1, cat_name = ''car''\<rparr>"

definition drawn :: annotation where
  "drawn = \<lparr>ann_id = None, category_id = 1, x_center = 1 / 2, y_center = 1 / 2,
            width = 1 / 4, height = 1 / 4\<rparr>"

definition img :: "int \<Rightarrow> image" where
  "img i = \<lparr>image_id = i, image_annotations = Some []\<rparr>"

text \<open>A server that answers \<^verbatim>\<open>GET /images/{id}\<close> with the image of that id.\<close>

definition server :: "int \<Rightarrow> js_error + image option" where
  "server i = Inr (Some (img i))"


text \<open>The first image of a two-image batch, just loaded into the fresh store.\<close>

definition loaded :: store where
  "loaded = snd (fetchNextImage [img 1, img 2] (Inr None) initial_store)"

definition two_edits :: "mutation list" where
  "two_edits = [AddOp 1000 drawn, RemoveOp (Some 1000)]"

text \<open>One box drawn on the first image; then the advance to the second image.\<close>

definition edited :: store where
  "edited = snd (addAnnotation 1000 drawn loaded)"

definition advanced :: store where
  "advanced = snd (fetchNextImage [] (Inr None) edited)"

text \<open>
  The last image of a dataset with one box drawn on it: the queue is empty, and the
  next fetch finds nothing on the server either.
\<close>

definition last_image :: store where
  "last_image =
     snd (addAnnotation 1000 drawn (snd (fetchNextImage [img 1] (Inr None) initial_store)))"

definition exhausted :: store where
  "exhausted = snd (fetchNextImage [] (Inr None) last_image)"

text \<open>The box drawn on the first image, undone.\<close>

definition undone :: store where
  "undone = edited\<lparr>historyIndex := 0, annotations := []\<rparr>"

section \<open>Concrete canvas states and the vocabulary of the canvas theorems\<close>

text \<open>
  A drag from (100, 100) to (300, 400) with category 1 selected, released before the
  image has loaded, after a 1920 x 1080 image has loaded, and a drag of 3 pixels.
\<close>

definition draw_unloaded :: canvas where
  "draw_unloaded =
     \<lparr>ctx = True, scale = 1, offsetX = 0, offsetY = 0, isDrawing = True,
      isDragging = False, isPanning = False,
      currentBox = Some \<lparr>box_x = 100, box_y = 100, box_w = 200, box_h = 300\<rparr>,
      selectedAnnotation = None, dragHandle = None, dragBox = None, image = None,
      props_annotations = [], props_selectedCategory = Some car\<rparr>"

definition draw_loaded :: canvas where
  "draw_loaded = draw_unloaded\<lparr>image := Some (1920, 1080)\<rparr>"

definition draw_tiny :: canvas where
  "draw_tiny =
     draw_loaded\<lparr>currentBox := Some \<lparr>box_x = 100, box_y = 100, box_w = - 3, box_h = 300\<rparr>\<rparr>"

text \<open>
  A drag of 3 pixels released before the image has loaded, the image coming with one
  annotation from an earlier session.
\<close>

definition draw_tiny_unloaded :: canvas where
  "draw_tiny_unloaded =
     draw_tiny\<lparr>image := None, props_annotations := [drawn\<lparr>ann_id := Some 7\<rparr>]\<rparr>"

text \<open>The events emitted by a pointer-up contain an add.\<close>

definition emits_add :: "js_error + (event list \<times> canvas) \<Rightarrow> bool" where
  "emits_add r =
     (case r of
        Inl e \<Rightarrow> False
      | Inr (evs, c) \<Rightarrow> list_ex (\<lambda>ev. case ev of Add a \<Rightarrow> True | _ \<Rightarrow> False) evs)"

text \<open>A resize in progress on a 100 x 100 box at the origin.\<close>

definition resizing :: canvas where
  "resizing =
     \<lparr>ctx = True, scale = 1, offsetX = 0, offsetY = 0, isDrawing = False,
      isDragging = True, isPanning = False, currentBox = None,
      selectedAnnotation = Some (drawn\<lparr>ann_id := Some 7\<rparr>), dragHandle = Some L,
      dragBox = Some \<lparr>box_x = 0, box_y = 0, box_w = 100, box_h = 100\<rparr>,
      image = Some (400, 400), props_annotations = [drawn\<lparr>ann_id := Some 7\<rparr>],
      props_selectedCategory = Some car\<rparr>"

text \<open>
  The double nearest to 10.4, which is what the literal \<^verbatim>\<open>10.4\<close> denotes, and a resize in
  progress on a 20 x 20 box at the origin.
\<close>

definition near_10_4 :: real where
  "near_10_4 = 5854679515581645 / 2 ^ 49"

text \<open>
  The double that \<^verbatim>\<open>10.4 + 10\<close> gives, below 20.4, and the double that subtracting 10.4
  from it gives, \<^verbatim>\<open>9.999999999999998\<close>.
\<close>

definition near_20_4 :: real where
  "near_20_4 = 5742089524897382 / 2 ^ 48"

definition below_10 :: real where
  "below_10 = 5629499534213119 / 2 ^ 49"

definition resizing_small :: canvas where
  "resizing_small =
     resizing\<lparr>dragBox := Some \<lparr>box_x = 0, box_y = 0, box_w = 20, box_h = 20\<rparr>\<rparr>"

text \<open>The edges a handle drags, read off the \<^verbatim>\<open>switch\<close> of \<^verbatim>\<open>updateDragBox\<close>.\<close>

definition drags_left :: "handle_type \<Rightarrow> bool" where
  "drags_left h = (h = TL \<or> h = BL \<or> h = L)"

definition drags_right :: "handle_type \<Rightarrow> bool" where
  "drags_right h = (h = TR \<or> h = BR \<or> h = R)"

definition drags_top :: "handle_type \<Rightarrow> bool" where
  "drags_top h = (h = TL \<or> h = TR \<or> h = T)"

definition drags_bottom :: "handle_type \<Rightarrow> bool" where
  "drags_bottom h = (h = BL \<or> h = BR \<or> h = B)"

text \<open>An idle canvas at scale 1 with no offset.\<close>

definition unzoomed :: canvas where
  "unzoomed = resizing\<lparr>isDragging := False, dragHandle := None, dragBox := None\<rparr>"

text \<open>A save request that is rejected, and one that is accepted.\<close>

definition failing_post :: "int \<Rightarrow> annotation list \<Rightarrow> bool \<Rightarrow> js_error + unit" where
  "failing_post i as skip = Inl RequestFailed"

definition accepting_post :: "int \<Rightarrow> annotation list \<Rightarrow> bool \<Rightarrow> js_error + unit" where
  "accepting_post i as skip = Inr ()"

section \<open>Concrete navigation states\<close>

text \<open>
  Three images fetched in one batch; the first two are saved, so that the third is
  current with the first two on the processed stack. Then one step back (browsing
  starts, the second image is current), a second step back, and a step forth.
\<close>

definition third_image :: store where
  "third_image =
     (let s1 = snd (fetchNextImage [img 1, img 2, img 3] (Inr None) initial_store);
          s2 = snd (saveAnnotations False accepting_post s1);
          s3 = snd (fetchNextImage [] (Inr None) s2);
          s4 = snd (saveAnnotations False accepting_post s3)
      in snd (fetchNextImage [] (Inr None) s4))"

definition browsing :: store where
  "browsing = snd (goToPreviousImage server third_image)"

definition stepped_back :: store where
  "stepped_back = snd (goToPreviousImage server browsing)"

definition stepped_forth :: store where
  "stepped_forth = snd (goToNextImage server stepped_back)"

text \<open>
  A server whose requests fail, and a server that answers every request with image 9;
  the step back and the step forth from the third image with each of them.
\<close>

definition failing_server :: "int \<Rightarrow> js_error + image option" where
  "failing_server i = Inl RequestFailed"

definition misnumbering_server :: "int \<Rightarrow> js_error + image option" where
  "misnumbering_server i = Inr (Some (img 9))"

definition failed_back :: store where
  "failed_back = snd (goToPreviousImage failing_server third_image)"

definition failed_forth :: store where
  "failed_forth = snd (goToNextImage failing_server failed_back)"

definition misled_back :: store where
  "misled_back = snd (goToPreviousImage misnumbering_server third_image)"

definition misled_forth :: store where
  "misled_forth = snd (goToNextImage misnumbering_server misled_back)"

text \<open>
  Outside browsing mode the cursor of the processed stack is at its head.
\<close>

definition cursor_at_head :: "store \<Rightarrow> bool" where
  "cursor_at_head s =
     (isInHistory s \<or> historyPosition s = int (length (processedHistory s)) - 1)"

section \<open>Facts about the array primitives\<close>

lemma findIndex_None_iff: "findIndex p xs = None \<longleftrightarrow> (\<forall>a \<in> set xs. \<not> p a)"
  by (induction xs) (auto split: option.splits)

lemma findIndex_Some_less: "findIndex p xs = Some i \<Longrightarrow> i < length xs \<and> p (xs ! i)"
  by (induction xs arbitrary: i) (auto split: if_splits option.splits)

lemma tl_snoc: "49 < length xs \<Longrightarrow> tl (xs @ [a]) = tl xs @ [a]"
  by (cases xs) auto

lemma length_js_slice0: "length (js_slice0 xs e) \<le> length xs"
  by (simp add: js_slice0_def Let_def)

section \<open>Rounding to double precision\<close>

text \<open>
  The rounding error is at most half a unit in the last place, integers below \<open>2^53\<close> are
  doubles, and a number between two consecutive powers of two is rounded on the grid of
  that binade.
\<close>

lemma rne_error: "\<bar>of_int (rne x) - x\<bar> \<le> 1 / 2"
  unfolding rne_def Let_def by (auto; linarith)

lemma rne_of_int [simp]: "rne (of_int n) = n"
  by (simp add: rne_def)

lemma fl64_at:
  fixes k :: int
  assumes "2 powr of_int k \<le> \<bar>x\<bar>" "\<bar>x\<bar> < 2 powr of_int (k + 1)"
  shows "fl64 x = of_int (rne (x / 2 powr of_int (k - 52))) * 2 powr of_int (k - 52)"
proof -
  have pos: "0 < \<bar>x\<bar>"
    using assms(1) by (smt (verit) powr_gt_zero)
  then have "\<lfloor>log 2 \<bar>x\<bar>\<rfloor> = k"
    using assms by (subst floor_log_eq_powr_iff) simp_all
  then show ?thesis
    using pos by (simp add: fl64_def Let_def)
qed

lemma fl64_error: "\<bar>fl64 x - x\<bar> \<le> \<bar>x\<bar> / 2 ^ 53"
proof (cases "x = 0")
  case True
  then show ?thesis by (simp add: fl64_def)
next
  case False
  define k where "k = \<lfloor>log 2 \<bar>x\<bar>\<rfloor>"
  define s :: real where "s = 2 powr of_int (k - 52)"
  have pos: "0 < \<bar>x\<bar>" using False by simp
  have kb: "2 powr of_int k \<le> \<bar>x\<bar>" "\<bar>x\<bar> < 2 powr of_int (k + 1)"
    using floor_log_eq_powr_iff [of "\<bar>x\<bar>" 2 k] pos by (simp_all add: k_def)
  have s0: "0 < s" by (simp add: s_def)
  have f: "fl64 x = of_int (rne (x / s)) * s"
    using fl64_at [OF kb] by (simp add: s_def)
  have "fl64 x - x = (of_int (rne (x / s)) - x / s) * s"
    using s0 by (simp add: f field_simps)
  then have "\<bar>fl64 x - x\<bar> = \<bar>of_int (rne (x / s)) - x / s\<bar> * s"
    using s0 by (simp add: abs_mult)
  also have "\<dots> \<le> (1 / 2) * s"
    using rne_error [of "x / s"] s0 by (intro mult_right_mono) simp_all
  also have "s * 2 ^ 52 = 2 powr of_int k"
  proof -
    have "(2::real) ^ 52 = 2 powr of_int 52" by (simp add: powr_numeral)
    then have "s * 2 ^ 52 = 2 powr of_int (k - 52) * 2 powr of_int 52" by (simp add: s_def)
    also have "\<dots> = 2 powr (of_int (k - 52) + of_int 52)" by (simp only: powr_add)
    finally show ?thesis by simp
  qed
  then have "(1 / 2) * s = 2 powr of_int k / 2 ^ 53"
    by (simp add: field_simps)
  also have "\<dots> \<le> \<bar>x\<bar> / 2 ^ 53"
    using kb(1) by (simp add: divide_right_mono)
  finally show ?thesis .
qed

lemma fl64_of_int:
  assumes "\<bar>n\<bar> < 2 ^ 53"
  shows "fl64 (of_int n) = of_int n"
proof (cases "n = 0")
  case True
  then show ?thesis by (simp add: fl64_def)
next
  case False
  define k where "k = \<lfloor>log 2 \<bar>of_int n :: real\<bar>\<rfloor>"
  have pos: "0 < \<bar>of_int n :: real\<bar>" using False by simp
  have kb: "2 powr of_int k \<le> \<bar>of_int n :: real\<bar>" "\<bar>of_int n :: real\<bar> < 2 powr of_int (k + 1)"
    using floor_log_eq_powr_iff [of "\<bar>of_int n :: real\<bar>" 2 k] pos by (simp_all add: k_def)
  have "\<bar>of_int n :: real\<bar> < 2 ^ 53"
    using assms by (metis of_int_abs of_int_less_numeral_power_cancel_iff)
  moreover have b: "(2::real) ^ 53 = 2 powr of_int 53"
    by (simp add: powr_numeral)
  ultimately have "(2::real) powr of_int k < 2 powr of_int 53"
    using kb(1) by linarith
  then have "(of_int k :: real) < of_int 53"
    using powr_less_cancel_iff [of 2 "of_int k" "of_int 53"] by simp
  then have "k < 53" by linarith
  then have le: "k - 52 \<le> 0" by simp
  define m where "m = nat (52 - k)"
  define s :: real where "s = 2 powr of_int (k - 52)"
  have p: "s = 1 / 2 ^ m"
  proof -
    have "of_int (k - 52) = - real m" using le by (simp add: m_def)
    then have "s = 2 powr (- real m)" by (simp only: s_def)
    also have "\<dots> = 1 / 2 powr real m" by (simp add: powr_minus field_simps)
    also have "\<dots> = 1 / 2 ^ m" by (simp add: powr_realpow)
    finally show ?thesis .
  qed
  have "of_int n / s = (of_int (n * 2 ^ m) :: real)"
    by (simp add: p)
  then have "rne (of_int n / s) = n * 2 ^ m"
    by (simp only: rne_of_int)
  moreover have "fl64 (of_int n) = of_int (rne (of_int n / s)) * s"
    using fl64_at [OF kb] by (simp only: s_def)
  ultimately show ?thesis
    by (simp add: p)
qed

lemma fl64_numeral [simp]: "numeral w < (2::int) ^ 53 \<Longrightarrow> fl64 (numeral w) = numeral w"
  using fl64_of_int [of "numeral w"] by simp

lemma fl64_zero [simp]: "fl64 0 = 0"
  by (simp add: fl64_def)

lemma fl64_one [simp]: "fl64 1 = 1"
  using fl64_of_int [of 1] by simp

lemma fl64_neg_numeral [simp]:
  "numeral w < (2::int) ^ 53 \<Longrightarrow> fl64 (- numeral w) = - numeral w"
  using fl64_of_int [of "- numeral w"] by simp

lemma near_10_4_literal: "fl64 (104 / 10) = near_10_4"
proof -
  have "fl64 (104 / 10) = of_int (rne ((104 / 10) / 2 powr of_int (3 - 52))) * 2 powr of_int (3 - 52)"
    by (rule fl64_at) (simp_all add: powr_numeral)
  also have "\<dots> = near_10_4"
    by (simp add: near_10_4_def powr_minus powr_numeral rne_def Let_def)
  finally show ?thesis .
qed

lemma near_10_4_plus_10: "fadd near_10_4 10 = near_20_4"
proof -
  have "fl64 (near_10_4 + 10) =
          of_int (rne ((near_10_4 + 10) / 2 powr of_int (4 - 52))) * 2 powr of_int (4 - 52)"
    by (rule fl64_at) (simp_all add: near_10_4_def powr_numeral)
  also have "\<dots> = near_20_4"
    by (simp add: near_10_4_def near_20_4_def powr_minus powr_numeral rne_def Let_def)
  finally show ?thesis by (simp only: fadd_def)
qed

lemma near_10_4_clamped: "fsub near_20_4 near_10_4 = below_10"
proof -
  have "fl64 (near_20_4 - near_10_4) =
          of_int (rne ((near_20_4 - near_10_4) / 2 powr of_int (3 - 52)))
            * 2 powr of_int (3 - 52)"
    by (rule fl64_at) (simp_all add: near_10_4_def near_20_4_def powr_numeral)
  also have "\<dots> = below_10"
    by (simp add: near_10_4_def near_20_4_def below_10_def powr_minus powr_numeral rne_def Let_def)
  finally show ?thesis by (simp only: fsub_def)
qed

lemma near_10_4_from_20: "fsub 20 near_10_4 < 10"
proof -
  have "\<bar>fl64 (20 - near_10_4) - (20 - near_10_4)\<bar> \<le> \<bar>20 - near_10_4\<bar> / 2 ^ 53"
    by (rule fl64_error)
  then show ?thesis
    by (simp add: fsub_def near_10_4_def abs_if split: if_splits)
qed

lemma clamp_error: "\<bar>fsub (fadd a 10) a - 10\<bar> \<le> (\<bar>a\<bar> + 10) / 2 ^ 51"
proof -
  define t where "t = (\<bar>a\<bar> + 10) / 2 ^ 53"
  define s where "s = fl64 (a + 10)"
  have t0: "0 \<le> t" by (simp add: t_def)
  have "\<bar>s - (a + 10)\<bar> \<le> \<bar>a + 10\<bar> / 2 ^ 53"
    unfolding s_def by (rule fl64_error)
  also have "\<dots> \<le> t"
    unfolding t_def by (intro divide_right_mono) simp_all
  finally have 1: "\<bar>(s - a) - 10\<bar> \<le> t" by (simp add: algebra_simps)
  then have d: "\<bar>s - a\<bar> \<le> 10 + t" by linarith
  have "\<bar>fl64 (s - a) - (s - a)\<bar> \<le> \<bar>s - a\<bar> / 2 ^ 53"
    by (rule fl64_error)
  also have "\<dots> \<le> (10 + t) / 2 ^ 53"
    using d by (intro divide_right_mono) simp_all
  also have "\<dots> \<le> 2 * t"
  proof -
    have "10 / 2 ^ 53 \<le> t" by (simp add: t_def divide_right_mono)
    moreover have "t / 2 ^ 53 \<le> t" using t0 by (simp add: field_simps)
    ultimately show ?thesis by (simp add: add_divide_distrib)
  qed
  finally have 2: "\<bar>fl64 (s - a) - (s - a)\<bar> \<le> 2 * t" .
  from 1 2 have "\<bar>fl64 (s - a) - 10\<bar> \<le> 3 * t" by linarith
  also have "\<dots> \<le> 4 * t" using t0 by simp
  also have "4 * t = (\<bar>a\<bar> + 10) / 2 ^ 51" by (simp add: t_def)
  finally show ?thesis by (simp add: fsub_def fadd_def s_def)
qed

section \<open>The concrete states, evaluated\<close>

lemma loaded_eq:
  "loaded = \<lparr>currentImage = Some (img 1), annotations = [], selectedCategory = None,
      history = [ [] ], historyIndex = 0, isLoading = False, imageQueue = [img 2],
      processedHistory = [], historyPosition = - 1, isInHistory = False\<rparr>"
  by (simp add: loaded_def fetchNextImage_def initializePrefetch_def getNextFromQueue_def
      saveHistory_def initial_store_def img_def or_empty_def json_clone_def Let_def)

lemma edited_eq:
  "edited = \<lparr>currentImage = Some (img 1), annotations = [drawn\<lparr>ann_id := Some 1000\<rparr>],
      selectedCategory = None,
      history = [ [], [drawn\<lparr>ann_id := Some 1000\<rparr>] ], historyIndex = 1, isLoading = False,
      imageQueue = [img 2],
      processedHistory = [], historyPosition = - 1, isInHistory = False\<rparr>"
  by (simp add: edited_def loaded_eq addAnnotation_def saveHistory_def drawn_def
      json_clone_def Let_def)

lemma advanced_eq:
  "advanced = \<lparr>currentImage = Some (img 2), annotations = [], selectedCategory = None,
      history = [ [], [drawn\<lparr>ann_id := Some 1000\<rparr>], [] ], historyIndex = 2, isLoading = False,
      imageQueue = [],
      processedHistory = [], historyPosition = - 1, isInHistory = False\<rparr>"
  by (simp add: advanced_def edited_eq fetchNextImage_def getNextFromQueue_def saveHistory_def
      img_def or_empty_def json_clone_def Let_def)

lemma last_image_eq:
  "last_image = \<lparr>currentImage = Some (img 1), annotations = [drawn\<lparr>ann_id := Some 1000\<rparr>],
      selectedCategory = None,
      history = [ [], [drawn\<lparr>ann_id := Some 1000\<rparr>] ], historyIndex = 1, isLoading = False,
      imageQueue = [],
      processedHistory = [], historyPosition = - 1, isInHistory = False\<rparr>"
  by (simp add: last_image_def fetchNextImage_def initializePrefetch_def getNextFromQueue_def
      addAnnotation_def saveHistory_def initial_store_def img_def or_empty_def drawn_def
      json_clone_def Let_def)

lemma exhausted_eq:
  "exhausted = \<lparr>currentImage = None, annotations = [],
      selectedCategory = None,
      history = [ [], [drawn\<lparr>ann_id := Some 1000\<rparr>] ], historyIndex = 1, isLoading = False,
      imageQueue = [],
      processedHistory = [], historyPosition = - 1, isInHistory = False\<rparr>"
  by (simp add: exhausted_def last_image_eq fetchNextImage_def getNextFromQueue_def Let_def)

section \<open>Every snapshot leaves the index at the tail\<close>

lemma saveHistory_at_tail: "at_tail (saveHistory s)"
  by (auto simp: saveHistory_def at_tail_def Let_def json_clone_def tl_snoc)

lemma saveHistory_length: "length (history (saveHistory s)) \<le> length (history s) + 1"
  using length_js_slice0 [of "history s" "historyIndex s + 1"]
  by (auto simp: saveHistory_def Let_def)

lemma mutate_at_tail: "at_tail s \<Longrightarrow> at_tail (mutate m s)"
  by (cases m) (auto simp: addAnnotation_def updateAnnotation_def removeAnnotation_def
      saveHistory_at_tail Let_def split: option.splits)

lemma mutate_length: "length (history (mutate m s)) \<le> length (history s) + 1"
proof (cases m)
  case (AddOp now a)
  then show ?thesis
    using saveHistory_length [of "s\<lparr>annotations := annotations s @ [a\<lparr>ann_id := Some now,
            category_id := (case selectedCategory s of
                              None \<Rightarrow> category_id a
                            | Some c \<Rightarrow> if cat_id c = 0 then category_id a else cat_id c)\<rparr>]\<rparr>"]
    by (simp add: addAnnotation_def Let_def)
next
  case (UpdateOp i u)
  then show ?thesis
    by (auto simp: updateAnnotation_def split: option.splits
        intro: order_trans [OF saveHistory_length])
next
  case (RemoveOp i)
  then show ?thesis
    by (auto simp: removeAnnotation_def split: option.splits
        intro: order_trans [OF saveHistory_length])
qed

lemma mutate_all_at_tail: "at_tail s \<Longrightarrow> at_tail (mutate_all ms s)"
  by (induction ms arbitrary: s) (simp_all add: mutate_at_tail)

lemma mutate_all_length: "length (history (mutate_all ms s)) \<le> length (history s) + length ms"
proof (induction ms arbitrary: s)
  case Nil
  show ?case by simp
next
  case (Cons m ms)
  have "length (history (mutate_all ms (mutate m s))) \<le> length (history (mutate m s)) + length ms"
    by (rule Cons.IH)
  also have "\<dots> \<le> (length (history s) + 1) + length ms"
    using mutate_length [of m s] by simp
  finally show ?case by simp
qed

section \<open>Undo and redo\<close>

lemma undo_step:
  "undo s = (if 0 < historyIndex s then
               (case js_at (history s) (historyIndex s - 1) of None \<Rightarrow> Inl SyntaxError
                | Some snap \<Rightarrow> Inr (s\<lparr>historyIndex := historyIndex s - 1, annotations := snap\<rparr>))
             else Inr s)"
  by (simp add: undo_def canUndo_def Let_def json_clone_def split: option.splits)

lemma repeat_undo_inside:
  assumes "0 \<le> historyIndex s" "historyIndex s < int (length (history s))"
    and "annotations s = history s ! nat (historyIndex s)"
  shows "repeat_undo n s =
           Inr (s\<lparr>historyIndex := max 0 (historyIndex s - int n),
                  annotations := history s ! nat (max 0 (historyIndex s - int n))\<rparr>)"
  using assms
proof (induction n arbitrary: s)
  case 0
  then show ?case by simp
next
  case (Suc n)
  show ?case
  proof (cases "0 < historyIndex s")
    case True
    let ?t = "s\<lparr>historyIndex := historyIndex s - 1,
                 annotations := history s ! nat (historyIndex s - 1)\<rparr>"
    have u: "undo s = Inr ?t"
      using True Suc.prems by (simp add: undo_step js_at_def)
    have "repeat_undo n ?t =
            Inr (?t\<lparr>historyIndex := max 0 (historyIndex ?t - int n),
                   annotations := history ?t ! nat (max 0 (historyIndex ?t - int n))\<rparr>)"
      by (rule Suc.IH) (use True Suc.prems in simp_all)
    then show ?thesis
      using u by (simp add: algebra_simps)
  next
    case False
    then have z: "historyIndex s = 0" using Suc.prems by simp
    have u: "undo s = Inr s" using z by (simp add: undo_step)
    show ?thesis
      using u Suc.IH [OF Suc.prems] z by simp
  qed
qed

lemma redo_step:
  "redo s = (if historyIndex s < int (length (history s)) - 1 then
               (case js_at (history s) (historyIndex s + 1) of None \<Rightarrow> Inl SyntaxError
                | Some snap \<Rightarrow> Inr (s\<lparr>historyIndex := historyIndex s + 1, annotations := snap\<rparr>))
             else Inr s)"
  by (simp add: redo_def canRedo_def Let_def json_clone_def split: option.splits)

lemma repeat_redo_inside:
  assumes "0 \<le> historyIndex s" "historyIndex s < int (length (history s))"
    and "annotations s = history s ! nat (historyIndex s)"
  shows "repeat_redo n s =
           Inr (s\<lparr>historyIndex := min (int (length (history s)) - 1) (historyIndex s + int n),
                  annotations := history s ! nat (min (int (length (history s)) - 1) (historyIndex s + int n))\<rparr>)"
  using assms
proof (induction n arbitrary: s)
  case 0
  then show ?case by simp
next
  case (Suc n)
  show ?case
  proof (cases "historyIndex s < int (length (history s)) - 1")
    case True
    let ?t = "s\<lparr>historyIndex := historyIndex s + 1,
                 annotations := history s ! nat (historyIndex s + 1)\<rparr>"
    have u: "redo s = Inr ?t"
      using True Suc.prems by (simp add: redo_step js_at_def)
    have "repeat_redo n ?t =
            Inr (?t\<lparr>historyIndex := min (int (length (history ?t)) - 1) (historyIndex ?t + int n),
                   annotations := history ?t ! nat (min (int (length (history ?t)) - 1) (historyIndex ?t + int n))\<rparr>)"
      by (rule Suc.IH) (use True Suc.prems in simp_all)
    then show ?thesis
      using u by (simp add: algebra_simps)
  next
    case False
    then have z: "historyIndex s = int (length (history s)) - 1" using Suc.prems by simp
    have u: "redo s = Inr s" using z by (simp add: redo_step)
    show ?thesis
      using u Suc.IH [OF Suc.prems] z by simp
  qed
qed

lemma at_tail_undo_redo:
  assumes t: "at_tail s" and n: "length (history s) \<le> Suc n"
  shows "\<exists>t. repeat_undo n s = Inr t \<and> historyIndex t = 0 \<and> repeat_redo n t = Inr s"
proof -
  let ?L = "length (history s)"
  from t have ne: "history s \<noteq> []" and idx: "historyIndex s = int ?L - 1"
    and ann: "annotations s = last (history s)"
    by (simp_all add: at_tail_def)
  from ne have pos: "0 < ?L" by simp
  have "nat (int ?L - 1) = ?L - 1"
    by linarith
  then have ann': "annotations s = history s ! nat (historyIndex s)"
    using ne idx ann by (simp add: last_conv_nth)
  let ?t = "s\<lparr>historyIndex := 0, annotations := history s ! 0\<rparr>"
  have m: "max 0 (historyIndex s - int n) = 0"
    using idx n by simp
  have u: "repeat_undo n s = Inr ?t"
    using repeat_undo_inside [of s n] idx pos ann' m by simp
  have m2: "min (int ?L - 1) (0 + int n) = int ?L - 1"
    using n by simp
  have "repeat_redo n ?t =
          Inr (?t\<lparr>historyIndex := min (int (length (history ?t)) - 1) (historyIndex ?t + int n),
                 annotations := history ?t ! nat (min (int (length (history ?t)) - 1) (historyIndex ?t + int n))\<rparr>)"
    by (rule repeat_redo_inside) (use pos in simp_all)
  then have "repeat_redo n ?t = Inr (s\<lparr>historyIndex := int ?L - 1, annotations := history s ! nat (int ?L - 1)\<rparr>)"
    using m2 by simp
  also have "s\<lparr>historyIndex := int ?L - 1, annotations := history s ! nat (int ?L - 1)\<rparr> = s"
    using idx ann' by simp
  finally show ?thesis using u by simp
qed

text \<open>
  C2. Undo/redo laws. From a freshly loaded image (one snapshot, index 0), after the
  mutations \<open>ms\<close> (n of them, each an add, update or remove), n calls of \<^verbatim>\<open>undo()\<close>
  followed by n calls of \<^verbatim>\<open>redo()\<close> return normally and give back the store as it was
  after the mutations, its annotation set included. \<^verbatim>\<open>undo()\<close> with the index at 0, or
  at -1 as it is with an empty history, and \<^verbatim>\<open>redo()\<close> with the index at the last
  snapshot return normally and change nothing.
\<close>

theorem undo_redo_laws:
  "(history s = [annotations s] \<and> historyIndex s = 0 \<longrightarrow>
      (\<exists>t. repeat_undo (length ms) (mutate_all ms s) = Inr t
           \<and> repeat_redo (length ms) t = Inr (mutate_all ms s)))
   \<and> (historyIndex s1 \<le> 0 \<longrightarrow> undo s1 = Inr s1)
   \<and> (historyIndex s2 = int (length (history s2)) - 1 \<longrightarrow> redo s2 = Inr s2)"
proof (intro conjI impI)
  assume fresh: "history s = [annotations s] \<and> historyIndex s = 0"
  then have "at_tail s" by (simp add: at_tail_def)
  then have t: "at_tail (mutate_all ms s)" by (rule mutate_all_at_tail)
  have "length (history (mutate_all ms s)) \<le> length (history s) + length ms"
    by (rule mutate_all_length)
  then have "length (history (mutate_all ms s)) \<le> Suc (length ms)"
    using fresh by simp
  from at_tail_undo_redo [OF t this]
  show "\<exists>t. repeat_undo (length ms) (mutate_all ms s) = Inr t
           \<and> repeat_redo (length ms) t = Inr (mutate_all ms s)"
    by blast
next
  assume "historyIndex s1 \<le> 0"
  then show "undo s1 = Inr s1" by (simp add: undo_def canUndo_def)
next
  assume "historyIndex s2 = int (length (history s2)) - 1"
  then show "redo s2 = Inr s2" by (simp add: redo_def canRedo_def)
qed

theorem undo_redo_laws_witness:
  "history loaded = [annotations loaded] \<and> historyIndex loaded = 0
   \<and> (\<exists>t. repeat_undo (length two_edits) (mutate_all two_edits loaded) = Inr t
          \<and> repeat_redo (length two_edits) t = Inr (mutate_all two_edits loaded))
   \<and> historyIndex initial_store \<le> 0 \<and> undo initial_store = Inr initial_store
   \<and> historyIndex loaded = int (length (history loaded)) - 1 \<and> redo loaded = Inr loaded"
  using undo_redo_laws [of loaded two_edits initial_store loaded]
  by (simp add: loaded_eq initial_store_def)

section \<open>Advancing to the next image\<close>

lemma getNextFromQueue_can_undo:
  assumes "imageQueue s \<noteq> []" "history s \<noteq> []" "0 \<le> historyIndex s"
  shows "canUndo (snd (getNextFromQueue s))"
proof -
  obtain nextImage rest where q: "imageQueue s = nextImage # rest"
    using assms(1) by (cases "imageQueue s") auto
  let ?s = "s\<lparr>imageQueue := rest, currentImage := Some nextImage,
                annotations := or_empty (image_annotations nextImage)\<rparr>"
  have "0 < length (js_slice0 (history s) (historyIndex s + 1))"
    using assms(2,3) by (simp add: js_slice0_def Let_def)
  then have "0 < historyIndex (saveHistory ?s)"
    using assms(2) by (auto simp: saveHistory_def Let_def)
  then show ?thesis
    using q by (simp add: getNextFromQueue_def canUndo_def)
qed

text \<open>
  C1. The claim is that advancing resets the undo history to the single snapshot of the
  new image, so that \<^verbatim>\<open>canUndo\<close> is false. Evaluated on the code: the first image of a
  batch is loaded, one box is added, and \<^verbatim>\<open>fetchNextImage\<close> pops the second image from
  the queue. The history then holds three snapshots with the index at 2, \<^verbatim>\<open>canUndo\<close> is
  true, and \<^verbatim>\<open>undo()\<close> puts the first image's box into the annotation set of the
  second image. (\<open>getNextFromQueue_can_undo\<close> above: the same for every advance from a
  store whose history is not empty.)
\<close>

theorem advance_keeps_undo_history:
  "edited = snd (addAnnotation 1000 drawn loaded)
   \<and> advanced = snd (fetchNextImage [] (Inr None) edited)
   \<and> map_option image_id (currentImage edited) = Some 1
   \<and> imageQueue edited = [img 2]
   \<and> map_option image_id (currentImage advanced) = Some 2
   \<and> length (history advanced) = 3
   \<and> historyIndex advanced = 2
   \<and> canUndo advanced
   \<and> undo advanced = Inr (advanced\<lparr>historyIndex := 1, annotations := annotations edited\<rparr>)
   \<and> annotations edited = [drawn\<lparr>ann_id := Some 1000\<rparr>]"
proof -
  have "edited = snd (addAnnotation 1000 drawn loaded)"
    by (simp only: edited_def)
  moreover have "advanced = snd (fetchNextImage [] (Inr None) edited)"
    by (simp only: advanced_def)
  moreover have "map_option image_id (currentImage edited) = Some 1
   \<and> imageQueue edited = [img 2]
   \<and> map_option image_id (currentImage advanced) = Some 2
   \<and> length (history advanced) = 3
   \<and> historyIndex advanced = 2
   \<and> canUndo advanced
   \<and> undo advanced = Inr (advanced\<lparr>historyIndex := 1, annotations := annotations edited\<rparr>)
   \<and> annotations edited = [drawn\<lparr>ann_id := Some 1000\<rparr>]"
    by (simp add: advanced_eq edited_eq canUndo_def undo_def js_at_def json_clone_def img_def)
  ultimately show ?thesis by blast
qed

section \<open>Consistency of the history with the live annotation set\<close>

text \<open>
  Every operation that takes a snapshot establishes the consistency, and \<^verbatim>\<open>undo\<close>,
  \<^verbatim>\<open>redo\<close> and the operations that find no target keep it.
\<close>

lemma at_tail_consistent: "at_tail s \<Longrightarrow> history_consistent s"
proof -
  assume t: "at_tail s"
  let ?L = "length (history s)"
  from t have ne: "history s \<noteq> []" and idx: "historyIndex s = int ?L - 1"
    and ann: "last (history s) = annotations s"
    by (simp_all add: at_tail_def)
  have "nat (int ?L - 1) = ?L - 1" by linarith
  then show ?thesis
    using ne idx ann by (simp add: history_consistent_def js_at_def last_conv_nth)
qed

lemma saveHistory_consistent: "history_consistent (saveHistory s)"
  by (rule at_tail_consistent) (rule saveHistory_at_tail)

lemma mutate_consistent: "history_consistent s \<Longrightarrow> history_consistent (mutate m s)"
  by (cases m) (auto simp: addAnnotation_def updateAnnotation_def removeAnnotation_def
      saveHistory_consistent Let_def split: option.splits)

lemma undo_consistent: "history_consistent s \<Longrightarrow> undo s = Inr t \<Longrightarrow> history_consistent t"
  by (auto simp: undo_step history_consistent_def split: if_splits option.splits)

lemma redo_consistent: "history_consistent s \<Longrightarrow> redo s = Inr t \<Longrightarrow> history_consistent t"
  by (auto simp: redo_step history_consistent_def split: if_splits option.splits)

lemma getNextFromQueue_consistent:
  "history_consistent s \<Longrightarrow> history_consistent (snd (getNextFromQueue s))"
  by (auto simp: getNextFromQueue_def saveHistory_consistent split: list.splits)

lemma fetchImage_consistent:
  "fetchImage get i s = (Inr r, t) \<Longrightarrow> history_consistent t"
proof -
  have c: "\<And>u. history_consistent (saveHistory u\<lparr>isLoading := False\<rparr>)"
    using saveHistory_consistent by (simp add: history_consistent_def)
  assume "fetchImage get i s = (Inr r, t)"
  then show ?thesis
    by (auto simp: fetchImage_def Let_def c split: sum.splits option.splits)
qed

lemma reload_consistent:
  "reload get i s = (None, t) \<Longrightarrow> history_consistent t"
proof -
  have c: "\<And>u. history_consistent (saveHistory u\<lparr>isLoading := False\<rparr>)"
    using saveHistory_consistent by (simp add: history_consistent_def)
  assume "reload get i s = (None, t)"
  then show ?thesis
    by (auto simp: reload_def Let_def c split: sum.splits option.splits)
qed

text \<open>
  C3. The claim is that after every operation the live annotation set is the snapshot at
  the history index. Evaluated on the code: on the last image of a dataset, with one box
  drawn, \<^verbatim>\<open>fetchNextImage\<close> finds the queue empty and the server without a next image;
  it empties the annotation set and leaves the history alone, so the snapshot at the
  index is still the set with the box.
\<close>

theorem exhausted_fetch_breaks_consistency:
  "exhausted = snd (fetchNextImage [] (Inr None) last_image)
   \<and> history_consistent last_image
   \<and> annotations exhausted = []
   \<and> js_at (history exhausted) (historyIndex exhausted) = Some [drawn\<lparr>ann_id := Some 1000\<rparr>]
   \<and> \<not> history_consistent exhausted
   \<and> canUndo exhausted"
proof -
  have "exhausted = snd (fetchNextImage [] (Inr None) last_image)"
    by (simp only: exhausted_def)
  moreover have "history_consistent last_image
   \<and> annotations exhausted = []
   \<and> js_at (history exhausted) (historyIndex exhausted) = Some [drawn\<lparr>ann_id := Some 1000\<rparr>]
   \<and> \<not> history_consistent exhausted
   \<and> canUndo exhausted"
    by (simp add: exhausted_eq last_image_eq history_consistent_def js_at_def canUndo_def)
  ultimately show ?thesis by blast
qed

section \<open>Truncation of the redo branch\<close>

lemma saveHistory_annotations [simp]: "annotations (saveHistory s) = annotations s"
  by (simp add: saveHistory_def Let_def)

lemma saveHistory_truncates:
  assumes "0 \<le> historyIndex s" "historyIndex s < int (length (history s)) - 1"
  shows "history (saveHistory s) =
           (let kept = take (nat (historyIndex s + 1)) (history s) @ [annotations s]
            in if length kept > 50 then tl kept else kept)"
proof -
  have "js_slice0 (history s) (historyIndex s + 1) = take (nat (historyIndex s + 1)) (history s)"
    using assms by (simp add: js_slice0_def Let_def min_def)
  then show ?thesis
    using assms by (simp add: saveHistory_def Let_def json_clone_def)
qed

lemma takes_effect_saves:
  "takes_effect m s \<Longrightarrow> \<exists>as. mutate m s = saveHistory (s\<lparr>annotations := as\<rparr>)"
  by (cases m) (auto simp: addAnnotation_def updateAnnotation_def removeAnnotation_def Let_def)

text \<open>
  C4. History truncation. With the index below the last snapshot (as after \<^verbatim>\<open>undo()\<close>), a
  mutation that takes effect keeps the snapshots up to the index, appends the new
  snapshot (the oldest entry is dropped should the length exceed 50, which cannot happen
  while the history holds at most 50 entries), so that afterwards \<^verbatim>\<open>canRedo\<close> is false
  and the last history entry is the new annotation set.
\<close>

theorem history_truncation:
  assumes "0 \<le> historyIndex s" and "historyIndex s < int (length (history s)) - 1"
    and "takes_effect m s"
  shows "history (mutate m s) =
           (let kept = take (nat (historyIndex s + 1)) (history s) @ [annotations (mutate m s)]
            in if length kept > 50 then tl kept else kept)
         \<and> \<not> canRedo (mutate m s)
         \<and> last (history (mutate m s)) = annotations (mutate m s)
         \<and> (length (history s) \<le> 50 \<longrightarrow>
              history (mutate m s) =
                take (nat (historyIndex s + 1)) (history s) @ [annotations (mutate m s)])"
proof -
  from assms(3) obtain as where m: "mutate m s = saveHistory (s\<lparr>annotations := as\<rparr>)"
    using takes_effect_saves by blast
  let ?u = "s\<lparr>annotations := as\<rparr>"
  have h: "history (saveHistory ?u) =
             (let kept = take (nat (historyIndex ?u + 1)) (history ?u) @ [annotations ?u]
              in if length kept > 50 then tl kept else kept)"
    by (rule saveHistory_truncates) (use assms in simp_all)
  have t: "at_tail (saveHistory ?u)" by (rule saveHistory_at_tail)
  have 1: "history (mutate m s) =
           (let kept = take (nat (historyIndex s + 1)) (history s) @ [annotations (mutate m s)]
            in if length kept > 50 then tl kept else kept)"
    using h m by simp
  have 2: "\<not> canRedo (mutate m s)"
    using t m by (simp add: at_tail_def canRedo_def)
  have 3: "last (history (mutate m s)) = annotations (mutate m s)"
    using t m by (simp add: at_tail_def)
  have 4: "length (history s) \<le> 50 \<longrightarrow>
              history (mutate m s) =
                take (nat (historyIndex s + 1)) (history s) @ [annotations (mutate m s)]"
  proof
    assume "length (history s) \<le> 50"
    then have "nat (historyIndex s + 1) \<le> 49"
      using assms(1,2) by linarith
    then have "\<not> 50 < length (take (nat (historyIndex s + 1)) (history s)
                              @ [annotations (mutate m s)])"
      by simp
    then show "history (mutate m s) =
                take (nat (historyIndex s + 1)) (history s) @ [annotations (mutate m s)]"
      using 1 by (simp only: Let_def if_False)
  qed
  from 1 2 3 4 show ?thesis by blast
qed

theorem history_truncation_witness:
  "undo edited = Inr undone
   \<and> 0 \<le> historyIndex undone
   \<and> historyIndex undone < int (length (history undone)) - 1
   \<and> takes_effect (AddOp 2000 drawn) undone
   \<and> length (history undone) \<le> 50
   \<and> canRedo undone
   \<and> history undone = [ [], [drawn\<lparr>ann_id := Some 1000\<rparr>] ]
   \<and> history (mutate (AddOp 2000 drawn) undone) = [ [], [drawn\<lparr>ann_id := Some 2000\<rparr>] ]
   \<and> \<not> canRedo (mutate (AddOp 2000 drawn) undone)
   \<and> last (history (mutate (AddOp 2000 drawn) undone))
       = annotations (mutate (AddOp 2000 drawn) undone)"
proof -
  have u: "undone = \<lparr>currentImage = Some (img 1), annotations = [],
      selectedCategory = None,
      history = [ [], [drawn\<lparr>ann_id := Some 1000\<rparr>] ], historyIndex = 0, isLoading = False,
      imageQueue = [img 2],
      processedHistory = [], historyPosition = - 1, isInHistory = False\<rparr>"
    by (simp add: undone_def edited_eq)
  have a: "annotations (mutate (AddOp 2000 drawn) undone) = [drawn\<lparr>ann_id := Some 2000\<rparr>]"
    by (simp add: u addAnnotation_def drawn_def Let_def)
  have h: "0 \<le> historyIndex undone" "historyIndex undone < int (length (history undone)) - 1"
    "takes_effect (AddOp 2000 drawn) undone" "length (history undone) \<le> 50"
    by (simp_all add: u)
  have "undo edited = Inr undone"
    by (simp add: u edited_eq undo_def canUndo_def js_at_def json_clone_def)
  moreover have "canRedo undone"
    by (simp add: u canRedo_def)
  moreover have "history undone = [ [], [drawn\<lparr>ann_id := Some 1000\<rparr>] ]"
    by (simp add: u)
  moreover have "history (mutate (AddOp 2000 drawn) undone) = [ [], [drawn\<lparr>ann_id := Some 2000\<rparr>] ]"
    using history_truncation [OF h(1,2,3)] h(4) by (simp only: a) (simp add: u)
  ultimately show ?thesis
    using history_truncation [OF h(1,2,3)] h by simp
qed

section \<open>Resizing a box\<close>

lemma updateDragBox_result:
  assumes "dragBox c = Some d"
  shows "dragBox (updateDragBox h (px, py) c) =
           Some \<lparr>box_x = (if drags_left h then px else box_x d),
                 box_y = (if drags_top h then py else box_y d),
                 box_w =
                   (if fsub (if drags_right h then px else fadd (box_x d) (box_w d))
                            (if drags_left h then px else box_x d) < 10
                    then fsub (fadd (if drags_left h then px else box_x d) 10)
                              (if drags_left h then px else box_x d)
                    else fsub (if drags_right h then px else fadd (box_x d) (box_w d))
                              (if drags_left h then px else box_x d)),
                 box_h =
                   (if fsub (if drags_bottom h then py else fadd (box_y d) (box_h d))
                            (if drags_top h then py else box_y d) < 10
                    then fsub (fadd (if drags_top h then py else box_y d) 10)
                              (if drags_top h then py else box_y d)
                    else fsub (if drags_bottom h then py else fadd (box_y d) (box_h d))
                              (if drags_top h then py else box_y d))\<rparr>"
  using assms
  by (cases h)
    (simp_all add: updateDragBox_def Let_def drags_left_def drags_right_def drags_top_def
      drags_bottom_def)

lemma clamped_extent:
  fixes lo hi :: real
  defines "e \<equiv> (if fsub hi lo < 10 then fsub (fadd lo 10) lo else fsub hi lo)"
  shows "10 - (\<bar>lo\<bar> + 10) / 2 ^ 51 \<le> e"
    and "fsub hi lo < 10 \<Longrightarrow> e = fsub (fadd lo 10) lo"
    and "fsub hi lo < 10 \<Longrightarrow> \<bar>e - 10\<bar> \<le> (\<bar>lo\<bar> + 10) / 2 ^ 51"
    and "10 \<le> fsub hi lo \<Longrightarrow> e = fsub hi lo"
    and "\<bar>lo\<bar> \<le> 2 ^ 30 \<Longrightarrow> 10 - 1 / 2 ^ 20 \<le> e"
proof -
  have c: "\<bar>fsub (fadd lo 10) lo - 10\<bar> \<le> (\<bar>lo\<bar> + 10) / 2 ^ 51"
    by (rule clamp_error)
  have p: "0 \<le> (\<bar>lo\<bar> + 10) / (2 ^ 51 :: real)" by simp
  show 1: "10 - (\<bar>lo\<bar> + 10) / 2 ^ 51 \<le> e"
  proof (cases "fsub hi lo < 10")
    case True
    then have "e = fsub (fadd lo 10) lo" by (simp add: e_def)
    then show ?thesis using c by linarith
  next
    case False
    then have "e = fsub hi lo" by (simp add: e_def)
    then show ?thesis using False p by linarith
  qed
  show "fsub hi lo < 10 \<Longrightarrow> e = fsub (fadd lo 10) lo"
    by (simp add: e_def)
  show "fsub hi lo < 10 \<Longrightarrow> \<bar>e - 10\<bar> \<le> (\<bar>lo\<bar> + 10) / 2 ^ 51"
    using c by (simp only: e_def if_True)
  show "10 \<le> fsub hi lo \<Longrightarrow> e = fsub hi lo"
    by (simp add: e_def)
  show "10 - 1 / 2 ^ 20 \<le> e" if "\<bar>lo\<bar> \<le> 2 ^ 30"
  proof -
    have "(\<bar>lo\<bar> + 10) / 2 ^ 51 \<le> (2 ^ 30 + 10) / (2 ^ 51 :: real)"
      using that by (intro divide_right_mono) simp_all
    also have "\<dots> \<le> 1 / 2 ^ 20" by simp
    finally show ?thesis using 1 by linarith
  qed
qed

text \<open>
  C6, as the claim states it, fails twice. It says that the dragged edge is clamped while
  the opposite (anchor) edge stays fixed: dragging the left handle of the box from 0 to
  100 to x = 95 leaves the dragged edge at 95 and moves the right edge to 105. And it
  says that the extent is at least 10, exactly 10 when clamped: with the left handle of
  the box from 0 to 20 at x = 10.4 the doubles give \<^verbatim>\<open>10.4 + 10 - 10.4\<close>, which is
  \<^verbatim>\<open>9.999999999999998\<close>.
\<close>

theorem left_handle_moves_anchor:
  "dragBox resizing = Some \<lparr>box_x = 0, box_y = 0, box_w = 100, box_h = 100\<rparr>
   \<and> dragBox (updateDragBox L (95, 50) resizing)
       = Some \<lparr>box_x = 95, box_y = 0, box_w = 10, box_h = 100\<rparr>
   \<and> box_x (the (dragBox (updateDragBox L (95, 50) resizing)))
       + box_w (the (dragBox (updateDragBox L (95, 50) resizing))) \<noteq> 100
   \<and> box_x (the (dragBox (updateDragBox L (95, 50) resizing))) \<noteq> 100 - 10
   \<and> dragBox resizing_small = Some \<lparr>box_x = 0, box_y = 0, box_w = 20, box_h = 20\<rparr>
   \<and> dragBox (updateDragBox L (near_10_4, 10) resizing_small)
       = Some \<lparr>box_x = near_10_4, box_y = 0, box_w = below_10, box_h = 20\<rparr>
   \<and> below_10 < 10"
proof -
  have d: "dragBox resizing = Some \<lparr>box_x = 0, box_y = 0, box_w = 100, box_h = 100\<rparr>"
    by (simp add: resizing_def)
  have 1: "dragBox (updateDragBox L (95, 50) resizing)
       = Some \<lparr>box_x = 95, box_y = 0, box_w = 10, box_h = 100\<rparr>"
    unfolding updateDragBox_result [OF d]
    by (simp add: drags_left_def drags_right_def drags_top_def drags_bottom_def fsub_def fadd_def)
  have ds: "dragBox resizing_small = Some \<lparr>box_x = 0, box_y = 0, box_w = 20, box_h = 20\<rparr>"
    by (simp add: resizing_small_def)
  have x: "fsub (fadd 0 20) near_10_4 < 10"
    using near_10_4_from_20 by (simp add: fadd_def)
  have y: "fadd 0 20 = 20" "fsub 20 0 = 20"
    by (simp_all add: fadd_def fsub_def)
  have 2: "dragBox (updateDragBox L (near_10_4, 10) resizing_small)
       = Some \<lparr>box_x = near_10_4, box_y = 0, box_w = below_10, box_h = 20\<rparr>"
    unfolding updateDragBox_result [OF ds]
    using x
    by (simp add: drags_left_def drags_right_def drags_top_def drags_bottom_def y
        near_10_4_plus_10 near_10_4_clamped)
  have 3: "below_10 < 10"
    by (simp add: below_10_def)
  show ?thesis
    using d ds 2 3 by (simp add: 1)
qed

text \<open>
  C6, amended. For every handle and every pointer position the resize step gives a box
  whose left (top) edge is the pointer coordinate if the handle drags it and the old
  edge otherwise. Its width (height) is the rounded distance of the edges where that is
  at least 10; where that is below 10 the right (bottom) edge is placed at left + 10
  (top + 10) and the width (height) is the rounded value of (left + 10) - left, which
  is 10 up to rounding: it differs from 10 by at most \<open>(|left| + 10) / 2^51\<close>. So the
  extent is never below \<open>10 - (|left| + 10) / 2^51\<close>, hence positive and within \<open>2^-20\<close>
  of 10 for coordinates up to \<open>2^30\<close>. The minimum is enforced on the right (bottom)
  edge alone: for the handles that drag the right or bottom edge the anchor edge stays
  fixed and the dragged edge stops at the minimum distance from it.
\<close>

theorem resize_min_extent:
  assumes "dragBox c = Some d"
  shows "\<exists>b. dragBox (updateDragBox h p c) = Some b
           \<and> box_x b = (if drags_left h then fst p else box_x d)
           \<and> box_y b = (if drags_top h then snd p else box_y d)
           \<and> 10 - (\<bar>box_x b\<bar> + 10) / 2 ^ 51 \<le> box_w b
           \<and> 10 - (\<bar>box_y b\<bar> + 10) / 2 ^ 51 \<le> box_h b
           \<and> (\<bar>box_x b\<bar> \<le> 2 ^ 30 \<longrightarrow> 10 - 1 / 2 ^ 20 \<le> box_w b)
           \<and> (\<bar>box_y b\<bar> \<le> 2 ^ 30 \<longrightarrow> 10 - 1 / 2 ^ 20 \<le> box_h b)
           \<and> (fsub (if drags_right h then fst p else fadd (box_x d) (box_w d)) (box_x b) < 10 \<longrightarrow>
                box_w b = fsub (fadd (box_x b) 10) (box_x b)
                \<and> \<bar>box_w b - 10\<bar> \<le> (\<bar>box_x b\<bar> + 10) / 2 ^ 51)
           \<and> (fsub (if drags_bottom h then snd p else fadd (box_y d) (box_h d)) (box_y b) < 10 \<longrightarrow>
                box_h b = fsub (fadd (box_y b) 10) (box_y b)
                \<and> \<bar>box_h b - 10\<bar> \<le> (\<bar>box_y b\<bar> + 10) / 2 ^ 51)
           \<and> (10 \<le> fsub (if drags_right h then fst p else fadd (box_x d) (box_w d)) (box_x b) \<longrightarrow>
                box_w b = fsub (if drags_right h then fst p else fadd (box_x d) (box_w d)) (box_x b))
           \<and> (10 \<le> fsub (if drags_bottom h then snd p else fadd (box_y d) (box_h d)) (box_y b) \<longrightarrow>
                box_h b = fsub (if drags_bottom h then snd p else fadd (box_y d) (box_h d)) (box_y b))"
proof -
  obtain px py where p: "p = (px, py)" by (cases p)
  define lx where "lx = (if drags_left h then px else box_x d)"
  define ly where "ly = (if drags_top h then py else box_y d)"
  define rx where "rx = (if drags_right h then px else fadd (box_x d) (box_w d))"
  define ry where "ry = (if drags_bottom h then py else fadd (box_y d) (box_h d))"
  define ex where "ex = (if fsub rx lx < 10 then fsub (fadd lx 10) lx else fsub rx lx)"
  define ey where "ey = (if fsub ry ly < 10 then fsub (fadd ly 10) ly else fsub ry ly)"
  let ?b = "\<lparr>box_x = lx, box_y = ly, box_w = ex, box_h = ey\<rparr>"
  have r: "dragBox (updateDragBox h p c) = Some ?b"
    unfolding p lx_def ly_def rx_def ry_def ex_def ey_def
    by (rule updateDragBox_result [OF assms])
  note cx = clamped_extent [where lo = lx and hi = rx, folded ex_def]
    and cy = clamped_extent [where lo = ly and hi = ry, folded ey_def]
  have sel: "box_x ?b = lx" "box_y ?b = ly" "box_w ?b = ex" "box_h ?b = ey"
    by simp_all
  have "box_x ?b = lx \<and> box_y ?b = ly
           \<and> 10 - (\<bar>box_x ?b\<bar> + 10) / 2 ^ 51 \<le> box_w ?b
           \<and> 10 - (\<bar>box_y ?b\<bar> + 10) / 2 ^ 51 \<le> box_h ?b
           \<and> (\<bar>box_x ?b\<bar> \<le> 2 ^ 30 \<longrightarrow> 10 - 1 / 2 ^ 20 \<le> box_w ?b)
           \<and> (\<bar>box_y ?b\<bar> \<le> 2 ^ 30 \<longrightarrow> 10 - 1 / 2 ^ 20 \<le> box_h ?b)
           \<and> (fsub rx (box_x ?b) < 10 \<longrightarrow>
                box_w ?b = fsub (fadd (box_x ?b) 10) (box_x ?b)
                \<and> \<bar>box_w ?b - 10\<bar> \<le> (\<bar>box_x ?b\<bar> + 10) / 2 ^ 51)
           \<and> (fsub ry (box_y ?b) < 10 \<longrightarrow>
                box_h ?b = fsub (fadd (box_y ?b) 10) (box_y ?b)
                \<and> \<bar>box_h ?b - 10\<bar> \<le> (\<bar>box_y ?b\<bar> + 10) / 2 ^ 51)
           \<and> (10 \<le> fsub rx (box_x ?b) \<longrightarrow> box_w ?b = fsub rx (box_x ?b))
           \<and> (10 \<le> fsub ry (box_y ?b) \<longrightarrow> box_h ?b = fsub ry (box_y ?b))"
    unfolding sel using cx cy by blast
  then show ?thesis
    unfolding p fst_conv snd_conv lx_def [symmetric] ly_def [symmetric]
      rx_def [symmetric] ry_def [symmetric]
    using r [unfolded p] by blast
qed

theorem resize_min_extent_witness:
  "dragBox resizing = Some \<lparr>box_x = 0, box_y = 0, box_w = 100, box_h = 100\<rparr>
   \<and> fsub 5 0 < 10 \<and> \<bar>0 :: real\<bar> \<le> 2 ^ 30
   \<and> dragBox (updateDragBox BR (5, 5) resizing)
       = Some \<lparr>box_x = 0, box_y = 0, box_w = 10, box_h = 10\<rparr>
   \<and> 10 \<le> fsub 50 0
   \<and> dragBox (updateDragBox BR (50, 50) resizing)
       = Some \<lparr>box_x = 0, box_y = 0, box_w = 50, box_h = 50\<rparr>"
proof -
  have d: "dragBox resizing = Some \<lparr>box_x = 0, box_y = 0, box_w = 100, box_h = 100\<rparr>"
    by (simp add: resizing_def)
  have f: "fsub 5 0 = 5" "fsub 50 0 = 50" "fsub (fadd 0 10) 0 = 10"
    by (simp_all add: fsub_def fadd_def)
  have br: "\<not> drags_left BR" "drags_right BR" "\<not> drags_top BR" "drags_bottom BR"
    by (simp_all add: drags_left_def drags_right_def drags_top_def drags_bottom_def)
  obtain b where b: "dragBox (updateDragBox BR (5, 5) resizing) = Some b"
      "box_x b = 0" "box_y b = 0" "box_w b = 10" "box_h b = 10"
    using resize_min_extent [OF d, of BR "(5, 5)"] by (auto simp: br f)
  obtain b' where b': "dragBox (updateDragBox BR (50, 50) resizing) = Some b'"
      "box_x b' = 0" "box_y b' = 0" "box_w b' = 50" "box_h b' = 50"
    using resize_min_extent [OF d, of BR "(50, 50)"] by (auto simp: br f)
  have "b = \<lparr>box_x = 0, box_y = 0, box_w = 10, box_h = 10\<rparr>"
    using b(2-5) by (cases b) simp
  moreover have "b' = \<lparr>box_x = 0, box_y = 0, box_w = 50, box_h = 50\<rparr>"
    using b'(2-5) by (cases b') simp
  ultimately show ?thesis
    using d f b(1) b'(1) by simp
qed

section \<open>Wheel zoom\<close>

text \<open>
  C7. Wheel zoom. The new scale is the old scale times 1.1 for a negative \<^verbatim>\<open>deltaY\<close> and
  times 0.9 for a positive one (one of the two on every event), clamped into [0.1, 10];
  and an image point that is under the pointer before the zoom (the scale being
  non-zero, the point is the pointer's image coordinates computed before the scale
  changes) is under the pointer after it. The arithmetic is exact.
\<close>

theorem wheel_zoom:
  "(deltaY < 0 \<longrightarrow>
      scale (snd (handleWheel mouseX mouseY deltaY c)) = min (max (scale c * (11 / 10)) (1 / 10)) 10)
   \<and> (deltaY > 0 \<longrightarrow>
      scale (snd (handleWheel mouseX mouseY deltaY c)) = min (max (scale c * (9 / 10)) (1 / 10)) 10)
   \<and> (scale (snd (handleWheel mouseX mouseY deltaY c)) = min (max (scale c * (11 / 10)) (1 / 10)) 10
        \<or> scale (snd (handleWheel mouseX mouseY deltaY c)) = min (max (scale c * (9 / 10)) (1 / 10)) 10)
   \<and> 1 / 10 \<le> scale (snd (handleWheel mouseX mouseY deltaY c))
   \<and> scale (snd (handleWheel mouseX mouseY deltaY c)) \<le> 10
   \<and> (scale c \<noteq> 0 \<and> imageToScreen c imgX imgY = (mouseX, mouseY) \<longrightarrow>
        screenToImage c mouseX mouseY = (imgX, imgY)
        \<and> imageToScreen (snd (handleWheel mouseX mouseY deltaY c)) imgX imgY = (mouseX, mouseY))"
  by (auto simp: handleWheel_def Let_def screenToImage_def imageToScreen_def)

theorem wheel_zoom_witness:
  "scale unzoomed \<noteq> 0
   \<and> imageToScreen unzoomed 400 300 = (400, 300)
   \<and> (- 100 :: real) < 0
   \<and> scale (snd (handleWheel 400 300 (- 100) unzoomed)) = 11 / 10
   \<and> imageToScreen (snd (handleWheel 400 300 (- 100) unzoomed)) 400 300 = (400, 300)
   \<and> (100 :: real) > 0
   \<and> scale (snd (handleWheel 400 300 100 unzoomed)) = 9 / 10
   \<and> imageToScreen (snd (handleWheel 400 300 100 unzoomed)) 400 300 = (400, 300)"
  using wheel_zoom [of "- 100" 400 300 unzoomed 400 300]
    wheel_zoom [of 100 400 300 unzoomed 400 300]
  by (simp add: unzoomed_def resizing_def imageToScreen_def)

section \<open>A failed save\<close>

text \<open>
  C8. If the save request fails, \<^verbatim>\<open>saveAnnotations\<close> fails with the same error and the
  store after the call is the store before it: annotations, undo history, history
  index and processed-image history are untouched. More generally the store is
  unchanged whenever the call ends in an exception.
\<close>

theorem failed_save_leaves_store:
  "(currentImage s = Some cur
      \<and> post (image_id cur) (map (\<lambda>a. a\<lparr>ann_id := None\<rparr>) (annotations s)) skip = Inl e
      \<longrightarrow> saveAnnotations skip post s = (Inl e, s))
   \<and> (fst (saveAnnotations skip post s) = Inl e \<longrightarrow> snd (saveAnnotations skip post s) = s)"
  by (auto simp: saveAnnotations_def Let_def split: option.splits sum.splits)

theorem failed_save_leaves_store_witness:
  "currentImage edited = Some (img 1)
   \<and> failing_post (image_id (img 1)) (map (\<lambda>a. a\<lparr>ann_id := None\<rparr>) (annotations edited)) False
       = Inl RequestFailed
   \<and> saveAnnotations False failing_post edited = (Inl RequestFailed, edited)
   \<and> fst (saveAnnotations False failing_post edited) = Inl RequestFailed
   \<and> snd (saveAnnotations False failing_post edited) = edited
   \<and> annotations (snd (saveAnnotations False failing_post edited)) = [drawn\<lparr>ann_id := Some 1000\<rparr>]
   \<and> historyIndex (snd (saveAnnotations False failing_post edited)) = 1
   \<and> processedHistory (snd (saveAnnotations False failing_post edited)) = []"
proof -
  have c: "currentImage edited = Some (img 1)"
    by (simp add: edited_eq)
  have p: "failing_post (image_id (img 1)) (map (\<lambda>a. a\<lparr>ann_id := None\<rparr>) (annotations edited)) False
       = Inl RequestFailed"
    by (simp add: failing_post_def)
  from failed_save_leaves_store [of edited "img 1" failing_post False RequestFailed] c p
  have "saveAnnotations False failing_post edited = (Inl RequestFailed, edited)"
    by blast
  then show ?thesis
    using c p by (simp add: edited_eq)
qed

lemma successful_save_records:
  "processedHistory (snd (saveAnnotations False accepting_post edited))
     = [\<lparr>image_id = 1, image_annotations = Some [drawn]\<rparr>]"
  by (simp add: saveAnnotations_def accepting_post_def edited_eq recordToProcessedHistory_def
      json_clone_def img_def drawn_def Let_def)

section \<open>Committing a drawn box\<close>

lemma draw_each_with_image: "image c \<noteq> None \<Longrightarrow> draw_each c as = None"
  by (induction as) (auto simp: drawAnnotation_def Let_def)

lemma draw_with_image: "image c \<noteq> None \<Longrightarrow> draw c = None"
  by (simp add: draw_def draw_each_with_image)

lemma draw_nothing: "props_annotations c = [] \<Longrightarrow> draw c = None"
  by (simp add: draw_def)

lemma redraw_ok: "image c \<noteq> None \<or> props_annotations c = [] \<Longrightarrow> redraw evs c = Inr (evs, c)"
  by (auto simp: redraw_def draw_with_image draw_nothing)

lemma redraw_emits: "emits_add (redraw [] c) = False"
  by (simp add: redraw_def emits_add_def split: option.splits)

lemma handleMouseUp_drawing:
  assumes "\<not> isPanning c" "\<not> isDragging c" "isDrawing c" "currentBox c = Some cb"
    and "props_selectedCategory c = Some cat"
  shows "handleMouseUp c =
           (if \<bar>box_w cb\<bar> > 5 \<and> \<bar>box_h cb\<bar> > 5 then
              (case image c of
                 None \<Rightarrow> redraw [] (c\<lparr>isDrawing := False, currentBox := None\<rparr>)
               | Some (imgW, imgH) \<Rightarrow>
                   redraw
                     [Add \<lparr>ann_id = None, category_id = cat_id cat,
                           x_center =
                             fdiv (fadd (if box_w cb < 0 then fadd (box_x cb) (box_w cb)
                                         else box_x cb)
                                        (fdiv \<bar>box_w cb\<bar> 2)) imgW,
                           y_center =
                             fdiv (fadd (if box_h cb < 0 then fadd (box_y cb) (box_h cb)
                                         else box_y cb)
                                        (fdiv \<bar>box_h cb\<bar> 2)) imgH,
                           width = fdiv \<bar>box_w cb\<bar> imgW,
                           height = fdiv \<bar>box_h cb\<bar> imgH\<rparr>]
                     (c\<lparr>isDrawing := False, currentBox := None\<rparr>))
            else redraw [] (c\<lparr>isDrawing := False, currentBox := None\<rparr>))"
  using assms
  by (cases "box_w cb < 0"; cases "box_h cb < 0")
    (simp_all add: handleMouseUp_def Let_def split: option.splits prod.splits)

text \<open>
  C5, as the claim states it, fails. An add is said to be emitted if and only if the
  normalised width and height both exceed 5: a 200 x 300 box released before the image
  has loaded emits nothing; the working box is discarded. And a box of width 3 is said
  to raise no error: released before the image has loaded, with an annotation to
  redraw, the closing redraw throws a TypeError.
\<close>

theorem draw_before_image_loaded:
  "isDrawing draw_unloaded \<and> \<not> isPanning draw_unloaded \<and> \<not> isDragging draw_unloaded
   \<and> currentBox draw_unloaded = Some \<lparr>box_x = 100, box_y = 100, box_w = 200, box_h = 300\<rparr>
   \<and> handleMouseUp draw_unloaded
       = Inr ([], draw_unloaded\<lparr>isDrawing := False, currentBox := None\<rparr>)
   \<and> \<not> (emits_add (handleMouseUp draw_unloaded) \<longleftrightarrow> (200 :: real) > 5 \<and> (300 :: real) > 5)
   \<and> isDrawing draw_tiny_unloaded \<and> \<not> isPanning draw_tiny_unloaded
   \<and> \<not> isDragging draw_tiny_unloaded
   \<and> currentBox draw_tiny_unloaded
       = Some \<lparr>box_x = 100, box_y = 100, box_w = - 3, box_h = 300\<rparr>
   \<and> image draw_tiny_unloaded = None
   \<and> props_annotations draw_tiny_unloaded = [drawn\<lparr>ann_id := Some 7\<rparr>]
   \<and> handleMouseUp draw_tiny_unloaded = Inl TypeError"
  by (simp add: draw_tiny_unloaded_def draw_tiny_def draw_loaded_def draw_unloaded_def
      handleMouseUp_def emits_add_def redraw_def draw_def drawAnnotation_def Let_def)

text \<open>
  C5, amended. On the pointer-up that ends a drawing drag (a category being selected, as
  it is when a drawing starts), with the working box normalised to positive extents, an
  add is emitted if and only if the width and the height both exceed 5 and the image has
  loaded. A box of width or height at most 5 emits nothing; with the image loaded, or
  with no annotation to redraw, it raises nothing either, and the working box is
  discarded. The emitted annotation carries the selected category and no id.
\<close>

theorem draw_commit:
  assumes "\<not> isPanning c" "\<not> isDragging c" "isDrawing c" "currentBox c = Some cb"
    and "props_selectedCategory c = Some cat"
  shows "(emits_add (handleMouseUp c) \<longleftrightarrow> \<bar>box_w cb\<bar> > 5 \<and> \<bar>box_h cb\<bar> > 5 \<and> image c \<noteq> None)
         \<and> ((\<bar>box_w cb\<bar> \<le> 5 \<or> \<bar>box_h cb\<bar> \<le> 5) \<and> (image c \<noteq> None \<or> props_annotations c = []) \<longrightarrow>
              handleMouseUp c = Inr ([], c\<lparr>isDrawing := False, currentBox := None\<rparr>))
         \<and> (\<bar>box_w cb\<bar> > 5 \<and> \<bar>box_h cb\<bar> > 5 \<and> image c \<noteq> None \<longrightarrow>
              (\<exists>a. handleMouseUp c = Inr ([Add a], c\<lparr>isDrawing := False, currentBox := None\<rparr>)
                   \<and> category_id a = cat_id cat \<and> ann_id a = None))"
proof -
  let ?c' = "c\<lparr>isDrawing := False, currentBox := None\<rparr>"
  note h = handleMouseUp_drawing [OF assms]
  have small: "handleMouseUp c = redraw [] ?c'" if "\<not> (\<bar>box_w cb\<bar> > 5 \<and> \<bar>box_h cb\<bar> > 5)"
    using that by (simp only: h if_False)
  have unloaded: "handleMouseUp c = redraw [] ?c'" if "image c = None"
    using that by (simp add: h)
  have loaded: "\<exists>a. handleMouseUp c = Inr ([Add a], ?c')
                   \<and> category_id a = cat_id cat \<and> ann_id a = None"
    if "\<bar>box_w cb\<bar> > 5 \<and> \<bar>box_h cb\<bar> > 5 \<and> image c \<noteq> None"
  proof -
    from that obtain wh where "image c = Some wh" by blast
    then obtain imgW imgH where i: "image c = Some (imgW, imgH)"
      by (cases wh) simp
    have "image ?c' \<noteq> None" using i by simp
    then have "\<And>evs. redraw evs ?c' = Inr (evs, ?c')" by (simp add: redraw_ok)
    then show ?thesis
      using that i by (simp add: h)
  qed
  have 1: "emits_add (handleMouseUp c) \<longleftrightarrow> \<bar>box_w cb\<bar> > 5 \<and> \<bar>box_h cb\<bar> > 5 \<and> image c \<noteq> None"
  proof (cases "\<bar>box_w cb\<bar> > 5 \<and> \<bar>box_h cb\<bar> > 5")
    case False
    have "\<not> emits_add (handleMouseUp c)"
      by (simp only: small [OF False] redraw_emits not_False_eq_True)
    then show ?thesis using False by blast
  next
    case True
    show ?thesis
    proof (cases "image c")
      case None
      then show ?thesis using unloaded [OF None] by (simp add: redraw_emits)
    next
      case (Some wh)
      then have "\<bar>box_w cb\<bar> > 5 \<and> \<bar>box_h cb\<bar> > 5 \<and> image c \<noteq> None"
        using True by simp
      from loaded [OF this] obtain a where "handleMouseUp c = Inr ([Add a], ?c')"
        by blast
      then show ?thesis
        using True Some by (simp add: emits_add_def)
    qed
  qed
  have 2: "(\<bar>box_w cb\<bar> \<le> 5 \<or> \<bar>box_h cb\<bar> \<le> 5) \<and> (image c \<noteq> None \<or> props_annotations c = []) \<longrightarrow>
              handleMouseUp c = Inr ([], ?c')"
  proof
    assume a: "(\<bar>box_w cb\<bar> \<le> 5 \<or> \<bar>box_h cb\<bar> \<le> 5) \<and> (image c \<noteq> None \<or> props_annotations c = [])"
    then have "\<not> (\<bar>box_w cb\<bar> > 5 \<and> \<bar>box_h cb\<bar> > 5)" by linarith
    then have "handleMouseUp c = redraw [] ?c'" by (rule small)
    moreover have "image ?c' \<noteq> None \<or> props_annotations ?c' = []" using a by simp
    ultimately show "handleMouseUp c = Inr ([], ?c')" by (simp only: redraw_ok)
  qed
  from 1 2 loaded show ?thesis by blast
qed

theorem draw_commit_witness:
  "\<not> isPanning draw_loaded \<and> \<not> isDragging draw_loaded \<and> isDrawing draw_loaded
   \<and> currentBox draw_loaded = Some \<lparr>box_x = 100, box_y = 100, box_w = 200, box_h = 300\<rparr>
   \<and> props_selectedCategory draw_loaded = Some car
   \<and> image draw_loaded = Some (1920, 1080)
   \<and> emits_add (handleMouseUp draw_loaded)
   \<and> (\<exists>a. handleMouseUp draw_loaded
              = Inr ([Add a], draw_loaded\<lparr>isDrawing := False, currentBox := None\<rparr>)
          \<and> category_id a = 1 \<and> ann_id a = None)
   \<and> \<not> isPanning draw_tiny \<and> \<not> isDragging draw_tiny \<and> isDrawing draw_tiny
   \<and> currentBox draw_tiny = Some \<lparr>box_x = 100, box_y = 100, box_w = - 3, box_h = 300\<rparr>
   \<and> props_selectedCategory draw_tiny = Some car
   \<and> image draw_tiny = Some (1920, 1080)
   \<and> \<not> emits_add (handleMouseUp draw_tiny)
   \<and> handleMouseUp draw_tiny = Inr ([], draw_tiny\<lparr>isDrawing := False, currentBox := None\<rparr>)"
proof -
  have l: "\<not> isPanning draw_loaded" "\<not> isDragging draw_loaded" "isDrawing draw_loaded"
    "currentBox draw_loaded = Some \<lparr>box_x = 100, box_y = 100, box_w = 200, box_h = 300\<rparr>"
    "props_selectedCategory draw_loaded = Some car"
    by (simp_all add: draw_loaded_def draw_unloaded_def)
  have i: "image draw_loaded = Some (1920, 1080)"
    by (simp add: draw_loaded_def)
  have t: "\<not> isPanning draw_tiny" "\<not> isDragging draw_tiny" "isDrawing draw_tiny"
    "currentBox draw_tiny = Some \<lparr>box_x = 100, box_y = 100, box_w = - 3, box_h = 300\<rparr>"
    "props_selectedCategory draw_tiny = Some car"
    by (simp_all add: draw_tiny_def draw_loaded_def draw_unloaded_def)
  have it: "image draw_tiny = Some (1920, 1080)"
    by (simp add: draw_tiny_def draw_loaded_def)
  show ?thesis
    using draw_commit [OF l] draw_commit [OF t] l i t it
    by (simp add: car_def emits_add_def)
qed

section \<open>Navigation through the processed images\<close>

lemma saveHistory_nav [simp]:
  "currentImage (saveHistory s) = currentImage s"
  "processedHistory (saveHistory s) = processedHistory s"
  "historyPosition (saveHistory s) = historyPosition s"
  "isInHistory (saveHistory s) = isInHistory s"
  by (simp_all add: saveHistory_def Let_def)

lemma reload_nav:
  "reload get i s = (r, t) \<Longrightarrow>
     processedHistory t = processedHistory s \<and> historyPosition t = historyPosition s
     \<and> isInHistory t = isInHistory s"
  by (auto simp: reload_def Let_def split: sum.splits option.splits)

lemma cursor_initial: "cursor_at_head initial_store"
  by (simp add: cursor_at_head_def initial_store_def)

lemma cursor_recordToProcessedHistory: "cursor_at_head (recordToProcessedHistory i as s)"
  by (auto simp: cursor_at_head_def recordToProcessedHistory_def Let_def)

lemma cursor_saveAnnotations:
  "cursor_at_head s \<Longrightarrow> cursor_at_head (snd (saveAnnotations skip post s))"
  by (auto simp: saveAnnotations_def Let_def cursor_recordToProcessedHistory
      split: option.splits sum.splits)

lemma cursor_exitHistoryMode: "cursor_at_head (exitHistoryMode s)"
  by (simp add: cursor_at_head_def exitHistoryMode_def)

lemma cursor_fetchNextImage:
  "cursor_at_head s \<Longrightarrow> cursor_at_head (snd (fetchNextImage batch direct s))"
  by (auto simp: cursor_at_head_def fetchNextImage_def initializePrefetch_def
      getNextFromQueue_def Let_def split: list.splits option.splits sum.splits)

lemma cursor_goToPreviousImage:
  "cursor_at_head s \<Longrightarrow> cursor_at_head (snd (goToPreviousImage get s))"
  by (auto simp: cursor_at_head_def goToPreviousImage_def Let_def
      split: option.splits prod.splits dest!: reload_nav)

lemma cursor_goToNextImage:
  "cursor_at_head s \<Longrightarrow> cursor_at_head (snd (goToNextImage get s))"
  by (auto simp: cursor_at_head_def goToNextImage_def canGoNext_def Let_def
      split: option.splits prod.splits dest!: reload_nav)

lemma reload_ok:
  assumes "get i = Inr (Some d)"
  shows "\<exists>t. reload get i s = (None, t) \<and> currentImage t = Some d
           \<and> processedHistory t = processedHistory s
           \<and> historyPosition t = historyPosition s
           \<and> isInHistory t = isInHistory s"
  using assms by (simp add: reload_def Let_def)

lemma goToNextImage_step:
  assumes b: "isInHistory s"
    and at: "js_at (processedHistory s) (historyPosition s + 1) = Some nx"
    and g: "get (image_id nx) = Inr (Some d)"
  shows "\<exists>t. goToNextImage get s = (Inr (Some d), t) \<and> currentImage t = Some d
           \<and> processedHistory t = processedHistory s
           \<and> historyPosition t = historyPosition s + 1
           \<and> (isInHistory t \<longleftrightarrow>
                historyPosition s + 1 \<noteq> int (length (processedHistory s)) - 1)"
proof -
  let ?P = "processedHistory s"
  let ?s1 = "s\<lparr>historyPosition := historyPosition s + 1\<rparr>"
  have lt: "historyPosition s < int (length ?P) - 1"
    using at by (simp add: js_at_def split: if_splits)
  have at1: "js_at (processedHistory ?s1) (historyPosition ?s1) = Some nx"
    using at by simp
  obtain t where t: "reload get (image_id nx) ?s1 = (None, t)" "currentImage t = Some d"
    "processedHistory t = ?P" "historyPosition t = historyPosition s + 1"
    "isInHistory t = isInHistory s"
    using reload_ok [of get "image_id nx" d ?s1] g by auto
  show ?thesis
  proof (cases "historyPosition s + 1 = int (length ?P) - 1")
    case True
    then have "goToNextImage get s = (Inr (Some d), t\<lparr>isInHistory := False\<rparr>)"
      using b lt at1 t by (simp add: goToNextImage_def canGoNext_def Let_def)
    then show ?thesis using t True by simp
  next
    case False
    then have "goToNextImage get s = (Inr (Some d), t)"
      using b lt at1 t by (simp add: goToNextImage_def canGoNext_def Let_def)
    then show ?thesis using t b False by simp
  qed
qed

lemma goToPreviousImage_nav:
  assumes c: "canGoPrevious s" and cur: "currentImage s = Some cur" and b: "\<not> isInHistory s"
    and pos: "historyPosition s = int (length (processedHistory s)) - 1"
    and g: "\<And>i. \<exists>d. get i = Inr (Some d) \<and> image_id d = i"
  shows "\<exists>r s1. goToPreviousImage get s = (Inr r, s1) \<and> isInHistory s1
           \<and> processedHistory s1 \<noteq> []
           \<and> historyPosition s1 = int (length (processedHistory s1)) - 2
           \<and> image_id (last (processedHistory s1)) = image_id cur"
proof -
  let ?P = "processedHistory s"
  from c have ne: "?P \<noteq> []" by (simp add: canGoPrevious_def)
  have n: "nat (int (length ?P) - 1) = length ?P - 1" by linarith
  have lst: "js_at ?P (int (length ?P) - 1) = Some (last ?P)"
    using ne n by (simp add: js_at_def last_conv_nth)
  let ?s1 = "if image_id (last ?P) \<noteq> image_id cur
             then s\<lparr>processedHistory := ?P @ [cur\<lparr>image_annotations := Some (json_clone (annotations s))\<rparr>],
                    historyPosition := int (length ?P + 1) - 1\<rparr>
             else s"
  let ?s2 = "?s1\<lparr>isInHistory := True, historyPosition := historyPosition ?s1 - 1\<rparr>"
  have nav: "isInHistory ?s2" "processedHistory ?s2 \<noteq> []"
    "historyPosition ?s2 = int (length (processedHistory ?s2)) - 2"
    "image_id (last (processedHistory ?s2)) = image_id cur"
    using ne pos by auto
  have eq: "goToPreviousImage get s =
          (case js_at (processedHistory ?s2) (historyPosition ?s2) of
              None \<Rightarrow> (Inr (currentImage ?s2), ?s2)
            | Some prevImage \<Rightarrow>
                (case reload get (image_id prevImage) ?s2 of
                   (Some e, s3) \<Rightarrow> (Inl e, s3)
                 | (None, s3) \<Rightarrow> (Inr (currentImage s3), s3)))"
    using c cur b lst by (simp add: goToPreviousImage_def Let_def cong: option.case_cong)
  show ?thesis
  proof (cases "js_at (processedHistory ?s2) (historyPosition ?s2)")
    case None
    then have "goToPreviousImage get s = (Inr (currentImage ?s2), ?s2)"
      using eq by simp
    then show ?thesis using nav by blast
  next
    case (Some prevImage)
    obtain d where d: "get (image_id prevImage) = Inr (Some d)"
      using g by blast
    obtain t where t: "reload get (image_id prevImage) ?s2 = (None, t)"
      "processedHistory t = processedHistory ?s2" "historyPosition t = historyPosition ?s2"
      "isInHistory t = isInHistory ?s2"
      using reload_ok [of get "image_id prevImage" d ?s2] d by blast
    have "goToPreviousImage get s = (Inr (currentImage t), t)"
      using eq Some t(1) by simp
    then show ?thesis using nav t by (metis (no_types, lifting))
  qed
qed

lemma goToPreviousImage_browsing:
  assumes b: "isInHistory s" and ne: "processedHistory s \<noteq> []"
    and g: "\<And>i. \<exists>d. get i = Inr (Some d) \<and> image_id d = i"
  shows "\<exists>r t. goToPreviousImage get s = (Inr r, t) \<and> isInHistory t
           \<and> processedHistory t = processedHistory s
           \<and> historyPosition t = historyPosition s - 1"
proof -
  let ?s2 = "s\<lparr>isInHistory := True, historyPosition := historyPosition s - 1\<rparr>"
  have eq: "goToPreviousImage get s =
          (case js_at (processedHistory ?s2) (historyPosition ?s2) of
              None \<Rightarrow> (Inr (currentImage ?s2), ?s2)
            | Some prevImage \<Rightarrow>
                (case reload get (image_id prevImage) ?s2 of
                   (Some e, s3) \<Rightarrow> (Inl e, s3)
                 | (None, s3) \<Rightarrow> (Inr (currentImage s3), s3)))"
    using b ne
    by (simp add: goToPreviousImage_def canGoPrevious_def Let_def
        cong: option.case_cong split: option.splits)
  show ?thesis
  proof (cases "js_at (processedHistory ?s2) (historyPosition ?s2)")
    case None
    then have "goToPreviousImage get s = (Inr (currentImage ?s2), ?s2)"
      using eq by simp
    then show ?thesis by simp
  next
    case (Some prevImage)
    obtain d where d: "get (image_id prevImage) = Inr (Some d)"
      using g by blast
    obtain t where t: "reload get (image_id prevImage) ?s2 = (None, t)"
      "processedHistory t = processedHistory ?s2" "historyPosition t = historyPosition ?s2"
      "isInHistory t = isInHistory ?s2"
      using reload_ok [of get "image_id prevImage" d ?s2] d by blast
    have "goToPreviousImage get s = (Inr (currentImage t), t)"
      using eq Some t(1) by simp
    then show ?thesis using t by simp
  qed
qed

lemma third_image_eq:
  "third_image =
     \<lparr>currentImage = Some (img 3), annotations = [], selectedCategory = None,
      history = [ [], [], [] ], historyIndex = 2, isLoading = False, imageQueue = [],
      processedHistory = [img 1, img 2], historyPosition = 1, isInHistory = False\<rparr>"
  by (simp add: third_image_def fetchNextImage_def initializePrefetch_def getNextFromQueue_def
      saveAnnotations_def recordToProcessedHistory_def accepting_post_def saveHistory_def
      initial_store_def img_def or_empty_def json_clone_def Let_def)

lemma browsing_eq:
  "browsing =
     \<lparr>currentImage = Some (img 2), annotations = [], selectedCategory = None,
      history = [ [] ], historyIndex = 0, isLoading = False, imageQueue = [],
      processedHistory = [img 1, img 2, img 3], historyPosition = 1, isInHistory = True\<rparr>"
  by (simp add: browsing_def third_image_eq goToPreviousImage_def canGoPrevious_def reload_def
      server_def js_at_def saveHistory_def img_def or_empty_def json_clone_def Let_def)

lemma stepped_back_eq:
  "stepped_back =
     \<lparr>currentImage = Some (img 1), annotations = [], selectedCategory = None,
      history = [ [] ], historyIndex = 0, isLoading = False, imageQueue = [],
      processedHistory = [img 1, img 2, img 3], historyPosition = 0, isInHistory = True\<rparr>"
  by (simp add: stepped_back_def browsing_eq goToPreviousImage_def canGoPrevious_def reload_def
      server_def js_at_def saveHistory_def img_def or_empty_def json_clone_def Let_def)

lemma stepped_forth_eq:
  "stepped_forth =
     \<lparr>currentImage = Some (img 2), annotations = [], selectedCategory = None,
      history = [ [] ], historyIndex = 0, isLoading = False, imageQueue = [],
      processedHistory = [img 1, img 2, img 3], historyPosition = 1, isInHistory = True\<rparr>"
  by (simp add: stepped_forth_def stepped_back_eq goToNextImage_def canGoNext_def reload_def
      server_def js_at_def saveHistory_def img_def or_empty_def json_clone_def Let_def)

lemma failed_back_run:
  "goToPreviousImage failing_server third_image =
     (Inl RequestFailed,
      \<lparr>currentImage = Some (img 3), annotations = [], selectedCategory = None,
       history = [ [], [], [] ], historyIndex = 2, isLoading = False, imageQueue = [],
       processedHistory = [img 1, img 2, img 3], historyPosition = 1, isInHistory = True\<rparr>)"
  by (simp add: third_image_eq goToPreviousImage_def canGoPrevious_def reload_def
      failing_server_def js_at_def img_def json_clone_def Let_def)

lemma failed_back_eq:
  "failed_back =
     \<lparr>currentImage = Some (img 3), annotations = [], selectedCategory = None,
      history = [ [], [], [] ], historyIndex = 2, isLoading = False, imageQueue = [],
      processedHistory = [img 1, img 2, img 3], historyPosition = 1, isInHistory = True\<rparr>"
  by (simp only: failed_back_def failed_back_run snd_conv)

lemma failed_forth_run:
  "goToNextImage failing_server failed_back =
     (Inl RequestFailed,
      \<lparr>currentImage = Some (img 3), annotations = [], selectedCategory = None,
       history = [ [], [], [] ], historyIndex = 2, isLoading = False, imageQueue = [],
       processedHistory = [img 1, img 2, img 3], historyPosition = 2, isInHistory = True\<rparr>)"
  by (simp add: failed_back_eq goToNextImage_def canGoNext_def
      reload_def failing_server_def js_at_def img_def Let_def)

lemma misled_back_eq:
  "misled_back =
     \<lparr>currentImage = Some (img 9), annotations = [], selectedCategory = None,
      history = [ [] ], historyIndex = 0, isLoading = False, imageQueue = [],
      processedHistory = [img 1, img 2, img 3], historyPosition = 1, isInHistory = True\<rparr>"
  by (simp add: misled_back_def third_image_eq goToPreviousImage_def canGoPrevious_def reload_def
      misnumbering_server_def js_at_def saveHistory_def img_def or_empty_def json_clone_def Let_def)

lemma misled_forth_eq:
  "misled_forth =
     \<lparr>currentImage = Some (img 9), annotations = [], selectedCategory = None,
      history = [ [] ], historyIndex = 0, isLoading = False, imageQueue = [],
      processedHistory = [img 1, img 2, img 3], historyPosition = 2, isInHistory = False\<rparr>"
  by (simp add: misled_forth_def misled_back_eq goToNextImage_def canGoNext_def reload_def
      misnumbering_server_def js_at_def saveHistory_def img_def or_empty_def json_clone_def Let_def)

text \<open>
  C9, as the claim states it, fails: it says that whenever \<^verbatim>\<open>goToPreviousImage()\<close> is
  enabled, a following \<^verbatim>\<open>goToNextImage()\<close> returns to the id that was current and leaves
  browsing mode. With three processed images and the second one current after one step
  back, a further step back and a step forth return to image 2 at cursor 1 of 3, which
  is not the head: the store is still browsing. From the third image outside browsing
  mode, with a server whose requests fail, both calls throw and the store is left
  browsing; with a server that answers with another image, that image is current after
  the pair.
\<close>

theorem browsing_previous_then_next:
  "canGoPrevious browsing
   \<and> map_option image_id (currentImage browsing) = Some 2
   \<and> isInHistory browsing
   \<and> stepped_back = snd (goToPreviousImage server browsing)
   \<and> map_option image_id (currentImage stepped_back) = Some 1
   \<and> stepped_forth = snd (goToNextImage server stepped_back)
   \<and> map_option image_id (currentImage stepped_forth) = Some 2
   \<and> historyPosition stepped_forth = 1
   \<and> length (processedHistory stepped_forth) = 3
   \<and> isInHistory stepped_forth
   \<and> canGoPrevious third_image \<and> \<not> isInHistory third_image
   \<and> map_option image_id (currentImage third_image) = Some 3
   \<and> fst (goToPreviousImage failing_server third_image) = Inl RequestFailed
   \<and> failed_back = snd (goToPreviousImage failing_server third_image)
   \<and> fst (goToNextImage failing_server failed_back) = Inl RequestFailed
   \<and> failed_forth = snd (goToNextImage failing_server failed_back)
   \<and> isInHistory failed_forth
   \<and> misled_back = snd (goToPreviousImage misnumbering_server third_image)
   \<and> misled_forth = snd (goToNextImage misnumbering_server misled_back)
   \<and> map_option image_id (currentImage misled_forth) = Some 9"
proof -
  have "stepped_back = snd (goToPreviousImage server browsing)"
    by (simp only: stepped_back_def)
  moreover have "stepped_forth = snd (goToNextImage server stepped_back)"
    by (simp only: stepped_forth_def)
  moreover have "canGoPrevious browsing" "map_option image_id (currentImage browsing) = Some 2"
    "isInHistory browsing"
    by (simp_all add: browsing_eq canGoPrevious_def img_def)
  moreover have "map_option image_id (currentImage stepped_back) = Some 1"
    by (simp add: stepped_back_eq img_def)
  moreover have "map_option image_id (currentImage stepped_forth) = Some 2"
    "historyPosition stepped_forth = 1" "length (processedHistory stepped_forth) = 3"
    "isInHistory stepped_forth"
    by (simp_all add: stepped_forth_eq img_def)
  moreover have "canGoPrevious third_image" "\<not> isInHistory third_image"
    "map_option image_id (currentImage third_image) = Some 3"
    by (simp_all add: third_image_eq canGoPrevious_def img_def)
  moreover have "fst (goToPreviousImage failing_server third_image) = Inl RequestFailed"
    by (simp only: failed_back_run fst_conv)
  moreover have "failed_back = snd (goToPreviousImage failing_server third_image)"
    by (simp only: failed_back_def)
  moreover have "fst (goToNextImage failing_server failed_back) = Inl RequestFailed"
    by (simp only: failed_forth_run fst_conv)
  moreover have "failed_forth = snd (goToNextImage failing_server failed_back)"
    by (simp only: failed_forth_def)
  moreover have "isInHistory failed_forth"
    by (simp add: failed_forth_def failed_forth_run)
  moreover have "misled_back = snd (goToPreviousImage misnumbering_server third_image)"
    by (simp only: misled_back_def)
  moreover have "misled_forth = snd (goToNextImage misnumbering_server misled_back)"
    by (simp only: misled_forth_def)
  moreover have "map_option image_id (currentImage misled_forth) = Some 9"
    by (simp add: misled_forth_eq img_def)
  ultimately show ?thesis by blast
qed

text \<open>
  C9, amended. Let the server answer each reload with the image asked for. When
  \<^verbatim>\<open>goToPreviousImage()\<close> is enabled and is called outside browsing mode (the cursor then
  being at the head of the processed stack, see \<open>cursor_at_head\<close>) with some current
  image, both calls return normally, and after \<^verbatim>\<open>goToNextImage()\<close> the current image has
  the id that was current before the pair, the cursor is at the head of the processed
  stack and the store is no longer browsing. When the pair is called while browsing
  with the cursor on an entry of the processed stack, both calls return normally, the
  stack and the cursor are as before, the image of that entry is current, and the store
  has left browsing mode exactly if the cursor is at the head.
\<close>

theorem previous_then_next:
  assumes g: "\<And>i. \<exists>d. get i = Inr (Some d) \<and> image_id d = i"
  shows "(canGoPrevious s \<and> currentImage s = Some cur \<and> \<not> isInHistory s
            \<and> historyPosition s = int (length (processedHistory s)) - 1 \<longrightarrow>
          (\<exists>r1 s1 r2 s2.
             goToPreviousImage get s = (Inr r1, s1) \<and> goToNextImage get s1 = (Inr r2, s2)
             \<and> map_option image_id (currentImage s2) = Some (image_id cur)
             \<and> historyPosition s2 = int (length (processedHistory s2)) - 1
             \<and> \<not> isInHistory s2))
         \<and> (isInHistory s \<and> js_at (processedHistory s) (historyPosition s) = Some at_cursor \<longrightarrow>
          (\<exists>r1 s1 r2 s2.
             goToPreviousImage get s = (Inr r1, s1) \<and> goToNextImage get s1 = (Inr r2, s2)
             \<and> map_option image_id (currentImage s2) = Some (image_id at_cursor)
             \<and> processedHistory s2 = processedHistory s
             \<and> historyPosition s2 = historyPosition s
             \<and> (isInHistory s2 \<longleftrightarrow>
                  historyPosition s \<noteq> int (length (processedHistory s)) - 1)))"
proof (intro conjI impI)
  assume a: "canGoPrevious s \<and> currentImage s = Some cur \<and> \<not> isInHistory s
            \<and> historyPosition s = int (length (processedHistory s)) - 1"
  then have a': "canGoPrevious s" "currentImage s = Some cur" "\<not> isInHistory s"
    "historyPosition s = int (length (processedHistory s)) - 1"
    by simp_all
  obtain r1 s1 where p: "goToPreviousImage get s = (Inr r1, s1)" "isInHistory s1"
      "processedHistory s1 \<noteq> []"
      "historyPosition s1 = int (length (processedHistory s1)) - 2"
      "image_id (last (processedHistory s1)) = image_id cur"
    using goToPreviousImage_nav [OF a' g] by blast
  let ?P = "processedHistory s1"
  have n: "nat (int (length ?P) - 1) = length ?P - 1" by linarith
  have at: "js_at ?P (historyPosition s1 + 1) = Some (last ?P)"
    using p(3,4) n by (simp add: js_at_def last_conv_nth)
  obtain d where d: "get (image_id (last ?P)) = Inr (Some d)" "image_id d = image_id (last ?P)"
    using g by blast
  obtain s2 where nx: "goToNextImage get s1 = (Inr (Some d), s2)" "currentImage s2 = Some d"
      "processedHistory s2 = ?P" "historyPosition s2 = historyPosition s1 + 1"
      "isInHistory s2 \<longleftrightarrow> historyPosition s1 + 1 \<noteq> int (length ?P) - 1"
    using goToNextImage_step [of s1 "last ?P" get d] p(2) at d(1) by blast
  have "map_option image_id (currentImage s2) = Some (image_id cur)"
    using nx(2) d(2) p(5) by simp
  moreover have "historyPosition s2 = int (length (processedHistory s2)) - 1"
    using nx(3,4) p(4) by simp
  moreover have "\<not> isInHistory s2"
    using nx(5) p(4) by simp
  ultimately show "\<exists>r1 s1 r2 s2.
             goToPreviousImage get s = (Inr r1, s1) \<and> goToNextImage get s1 = (Inr r2, s2)
             \<and> map_option image_id (currentImage s2) = Some (image_id cur)
             \<and> historyPosition s2 = int (length (processedHistory s2)) - 1
             \<and> \<not> isInHistory s2"
    using p(1) nx(1) by blast
next
  assume a: "isInHistory s \<and> js_at (processedHistory s) (historyPosition s) = Some at_cursor"
  then have b: "isInHistory s" and at: "js_at (processedHistory s) (historyPosition s) = Some at_cursor"
    by simp_all
  have ne: "processedHistory s \<noteq> []"
    using at by (auto simp: js_at_def split: if_splits)
  obtain r1 s1 where p: "goToPreviousImage get s = (Inr r1, s1)" "isInHistory s1"
      "processedHistory s1 = processedHistory s" "historyPosition s1 = historyPosition s - 1"
    using goToPreviousImage_browsing [OF b ne g] by blast
  have at1: "js_at (processedHistory s1) (historyPosition s1 + 1) = Some at_cursor"
    using at p(3,4) by simp
  obtain d where d: "get (image_id at_cursor) = Inr (Some d)" "image_id d = image_id at_cursor"
    using g by blast
  obtain s2 where nx: "goToNextImage get s1 = (Inr (Some d), s2)" "currentImage s2 = Some d"
      "processedHistory s2 = processedHistory s1" "historyPosition s2 = historyPosition s1 + 1"
      "isInHistory s2 \<longleftrightarrow> historyPosition s1 + 1 \<noteq> int (length (processedHistory s1)) - 1"
    using goToNextImage_step [of s1 at_cursor get d] p(2) at1 d(1) by blast
  have "map_option image_id (currentImage s2) = Some (image_id at_cursor)"
    using nx(2) d(2) by simp
  moreover have "processedHistory s2 = processedHistory s" using nx(3) p(3) by simp
  moreover have "historyPosition s2 = historyPosition s" using nx(4) p(4) by simp
  moreover have "isInHistory s2 \<longleftrightarrow> historyPosition s \<noteq> int (length (processedHistory s)) - 1"
    using nx(5) p(3,4) by simp
  ultimately show "\<exists>r1 s1 r2 s2.
             goToPreviousImage get s = (Inr r1, s1) \<and> goToNextImage get s1 = (Inr r2, s2)
             \<and> map_option image_id (currentImage s2) = Some (image_id at_cursor)
             \<and> processedHistory s2 = processedHistory s
             \<and> historyPosition s2 = historyPosition s
             \<and> (isInHistory s2 \<longleftrightarrow>
                  historyPosition s \<noteq> int (length (processedHistory s)) - 1)"
    using p(1) nx(1) by blast
qed

theorem previous_then_next_witness:
  "canGoPrevious third_image
   \<and> currentImage third_image = Some (img 3)
   \<and> \<not> isInHistory third_image
   \<and> historyPosition third_image = int (length (processedHistory third_image)) - 1
   \<and> server 3 = Inr (Some (img 3)) \<and> image_id (img 3) = 3
   \<and> map_option image_id
        (currentImage (snd (goToNextImage server (snd (goToPreviousImage server third_image)))))
       = Some 3
   \<and> \<not> isInHistory (snd (goToNextImage server (snd (goToPreviousImage server third_image))))
   \<and> isInHistory browsing
   \<and> js_at (processedHistory browsing) (historyPosition browsing) = Some (img 2)
   \<and> map_option image_id
        (currentImage (snd (goToNextImage server (snd (goToPreviousImage server browsing)))))
       = Some 2
   \<and> historyPosition (snd (goToNextImage server (snd (goToPreviousImage server browsing)))) = 1
   \<and> isInHistory (snd (goToNextImage server (snd (goToPreviousImage server browsing))))"
proof -
  have h: "canGoPrevious third_image \<and> currentImage third_image = Some (img 3)
    \<and> \<not> isInHistory third_image
    \<and> historyPosition third_image = int (length (processedHistory third_image)) - 1"
    by (simp add: third_image_eq canGoPrevious_def)
  have hb: "isInHistory browsing
    \<and> js_at (processedHistory browsing) (historyPosition browsing) = Some (img 2)"
    by (simp add: browsing_eq js_at_def)
  have pb: "historyPosition browsing = 1" "length (processedHistory browsing) = 3"
    by (simp_all add: browsing_eq)
  have g: "\<And>i. \<exists>d. server i = Inr (Some d) \<and> image_id d = i"
    by (simp add: server_def img_def)
  from previous_then_next [of server third_image "img 3" "img 2", OF g] h
  have 1: "map_option image_id
        (currentImage (snd (goToNextImage server (snd (goToPreviousImage server third_image)))))
       = Some 3
   \<and> \<not> isInHistory (snd (goToNextImage server (snd (goToPreviousImage server third_image))))"
    by (auto simp: img_def)
  from previous_then_next [of server browsing "img 3" "img 2", OF g] hb pb
  have 2: "map_option image_id
        (currentImage (snd (goToNextImage server (snd (goToPreviousImage server browsing)))))
       = Some 2
   \<and> historyPosition (snd (goToNextImage server (snd (goToPreviousImage server browsing)))) = 1
   \<and> isInHistory (snd (goToNextImage server (snd (goToPreviousImage server browsing))))"
    by (auto simp: img_def)
  show ?thesis
    using h hb 1 2 by (simp add: server_def img_def)
qed

section \<open>Unknown ids\<close>

text \<open>
  C10. \<^verbatim>\<open>updateAnnotation(id, updates)\<close> and \<^verbatim>\<open>removeAnnotation(id)\<close> with an id that no
  annotation of the current set carries leave the whole store as it was: the annotation
  array, the undo history and the history index are unchanged, and neither function has
  a failing branch.
\<close>

theorem unknown_id_is_noop:
  assumes "\<forall>a \<in> set (annotations s). ann_id a \<noteq> i"
  shows "updateAnnotation i u s = s \<and> removeAnnotation i s = s"
proof -
  from assms have "findIndex (\<lambda>a. ann_id a = i) (annotations s) = None"
    by (simp add: findIndex_None_iff)
  then show ?thesis
    by (simp add: updateAnnotation_def removeAnnotation_def)
qed

theorem unknown_id_is_noop_witness:
  "annotations (initial_store\<lparr>annotations := [drawn\<lparr>ann_id := Some 1\<rparr>]\<rparr>)
     = [drawn\<lparr>ann_id := Some 1\<rparr>]
   \<and> ann_id (drawn\<lparr>ann_id := Some 1\<rparr>) \<noteq> Some 2
   \<and> updateAnnotation (Some 2)
         \<lparr>upd_category_id = None, upd_x_center = Some 0, upd_y_center = None,
          upd_width = None, upd_height = None\<rparr>
         (initial_store\<lparr>annotations := [drawn\<lparr>ann_id := Some 1\<rparr>]\<rparr>)
       = initial_store\<lparr>annotations := [drawn\<lparr>ann_id := Some 1\<rparr>]\<rparr>
   \<and> removeAnnotation (Some 2) (initial_store\<lparr>annotations := [drawn\<lparr>ann_id := Some 1\<rparr>]\<rparr>)
       = initial_store\<lparr>annotations := [drawn\<lparr>ann_id := Some 1\<rparr>]\<rparr>"
  using unknown_id_is_noop [of "initial_store\<lparr>annotations := [drawn\<lparr>ann_id := Some 1\<rparr>]\<rparr>" "Some 2"]
  by (simp add: initial_store_def drawn_def)

end
